theory Spec2Isabelle
  imports Main
begin

section \<open>Data model of src/index.js\<close>

text \<open>
  The module keeps one mutable global, \<open>FRONTLOAD_QUEUES\<close>, an array of queues. The
  fetch functions, the rendered tree and the store the tree reads from are external; they
  appear here as parameters (\<open>fetch\<close>, \<open>settled_store\<close>, the \<open>render\<close> argument) and
  every call the module makes to them is recorded in the state (\<open>calls\<close>, \<open>renders\<close>,
  \<open>logs\<close>), so that "is invoked" and "is not invoked" are statements about the state.

  What the model takes from its surroundings: a fetch function returns a promise and
  does not throw synchronously; the renderer returns; nothing else touches the registry
  between a flush and the callback on its promise. The exceptions the module itself can
  raise are reads of \<open>length\<close> and calls of \<open>unshift\<close> on a queue that is not there.
\<close>

datatype error = TypeError

text \<open>\<open>LIFECYCLE_PHASES = { MOUNT: 0, UPDATE: 1 }\<close>\<close>

datatype lifecycle_phase = MOUNT | UPDATE

text \<open>
  A field of a JavaScript options object may be absent: \<open>None\<close> is \<open>undefined\<close>.
  \<open>truthy\<close> is the test \<open>if (x)\<close>, \<open>x = Some False\<close> is the test \<open>x === false\<close>.
\<close>

definition truthy :: "bool option \<Rightarrow> bool" where
  "truthy b = (b = Some True)"

record node_options =
  onMount :: "bool option"
  onUpdate :: "bool option"
  noServerRender :: "bool option"

text \<open>The props handed to a connected component; \<open>displayName\<close> is the one field the module reads.\<close>

record 'p child_props =
  displayName :: "string option"
  payload :: 'p

text \<open>
  The closure \<open>() => frontload(childProps, { isMount, isUpdate })\<close>, as data: the fetch
  function and the arguments it will be applied to.
\<close>

record ('f, 'p) call =
  call_frontload :: 'f
  call_props :: "'p child_props"
  call_isMount :: bool
  call_isUpdate :: bool

text \<open>An element of a queue: \<open>{ fn, options, componentDisplayName }\<close>.\<close>

record ('f, 'p) queued =
  fn :: "('f, 'p) call"
  options :: node_options
  componentDisplayName :: "string option"

datatype message =
    RunningRenderPass int
  | TotalFrontloadsCount int int
  | NoFrontloadsRemain int "int option"
  | QueuesFilledNotFlushed
  | FinalRenderSucceeded
  | FrontloadsToRun int int
  | RanFrontloads int int
  | MaxNestedReached "int option" int
  | ExtraPassNotFlushed "int option"
  | AddedToQueue string
  | ExecutedFrontload string
  | DidNotExecute string
  | FirstClientRenderDone
  | RunningOnFirstClientRender "string option" bool

datatype log_name = Name "string option" | Info | WARNING | FlushLogger

text \<open>
  Promises. A promise either never settles (\<open>None\<close>) or settles at a logical time with
  an outcome. Values are dynamically typed: \<open>Promise.all\<close> fulfils with an array, and a
  value may itself be a thenable (a promise used as a value, as in
  \<open>Promise.reject(Promise.reject(x))\<close> or \<open>throw res.json()\<close>). A promise derived from
  others (\<open>catch\<close>, \<open>Promise.all\<close>) settles with the input that decides it; the delay of
  the callback queue is left out, so a derived promise is never earlier than the model
  says.
\<close>

datatype 'a val = Atom 'a | Array "'a val list" | Thenable "(nat \<times> 'a settled) option"
  and 'a settled = Fulfilled "'a val" | Rejected "'a val"

type_synonym 'a promise = "(nat \<times> 'a settled) option"

record ('f, 'p, 'w) state =
  FRONTLOAD_QUEUES :: "('f, 'p) queued list option list"
  store :: 'w
  calls :: "('f, 'p) call list"
  renders :: "bool list"
  logs :: "(log_name \<times> message) list"

text \<open>
  What the module reads from its surroundings: \<open>process.env.NODE_ENV === 'production'\<close>,
  the result of \<open>autoDetectIsServer()\<close>, the promise the \<open>n\<close>-th invocation of a fetch
  function returns, and the store once a batch of invocations has settled.
\<close>

record ('f, 'p, 'w, 'a) env =
  production :: bool
  IS_SERVER :: bool
  fetch :: "nat \<Rightarrow> ('f, 'p) call \<Rightarrow> 'a promise"
  settled_store :: "('f, 'p) call list \<Rightarrow> 'w \<Rightarrow> 'w"

section \<open>Queue registry\<close>

text \<open>\<open>arr[i]\<close>: \<open>undefined\<close> beyond the end and at a hole.\<close>

definition lookup :: "'x option list \<Rightarrow> nat \<Rightarrow> 'x option" where
  "lookup arr i = (if i < length arr then arr ! i else None)"

text \<open>\<open>arr[i] = v\<close>: an assignment beyond the end extends the array, leaving holes.\<close>

definition assign :: "'x option list \<Rightarrow> nat \<Rightarrow> 'x \<Rightarrow> 'x option list" where
  "assign arr i v =
     (if i < length arr then arr[i := Some v]
      else arr @ replicate (i - length arr) None @ [Some v])"

definition log :: "log_name \<Rightarrow> message \<Rightarrow> ('f, 'p, 'w) state \<Rightarrow> ('f, 'p, 'w) state" where
  "log nm msg s = s\<lparr>logs := logs s @ [(nm, msg)]\<rparr>"

definition cleanQueues :: "nat option \<Rightarrow> ('f, 'p, 'w) state \<Rightarrow> ('f, 'p, 'w) state" where
  "cleanQueues index s =
     (case index of
        None \<Rightarrow> s\<lparr>FRONTLOAD_QUEUES := []\<rparr>
      | Some i \<Rightarrow> s\<lparr>FRONTLOAD_QUEUES := assign (FRONTLOAD_QUEUES s) i []\<rparr>)"

section \<open>Provider instance\<close>

record provider_props =
  props_isServer :: "bool option"
  props_noServerRender :: "bool option"
  withLogging :: "bool option"
  name :: "string option"

record provider =
  props :: provider_props
  isServer :: bool
  queueIndex :: nat
  firstClientRenderDone :: bool

text \<open>
  The constructor: \<open>this.queueIndex = FRONTLOAD_QUEUES.push([]) - 1\<close>. The field
  \<open>firstClientRenderDone\<close> is not assigned there, so it is \<open>undefined\<close> (falsy).
\<close>

definition Frontload_constructor ::
  "('f, 'p, 'w, 'a) env \<Rightarrow> provider_props \<Rightarrow> ('f, 'p, 'w) state \<Rightarrow> provider \<times> ('f, 'p, 'w) state" where
  "Frontload_constructor env ps s =
     (\<lparr>props = ps,
       isServer = (case props_isServer ps of None \<Rightarrow> IS_SERVER env | Some b \<Rightarrow> b),
       queueIndex = length (FRONTLOAD_QUEUES s @ [Some []]) - 1,
       firstClientRenderDone = False\<rparr>,
      s\<lparr>FRONTLOAD_QUEUES := FRONTLOAD_QUEUES s @ [Some []]\<rparr>)"

definition componentDidMount ::
  "('f, 'p, 'w, 'a) env \<Rightarrow> provider \<Rightarrow> ('f, 'p, 'w) state \<Rightarrow> provider \<times> ('f, 'p, 'w) state" where
  "componentDidMount env this s =
     (this\<lparr>firstClientRenderDone := True\<rparr>,
      if \<not> production env \<and> truthy (withLogging (props this))
           \<and> \<not> truthy (props_noServerRender (props this))
      then log (Name (name (props this))) FirstClientRenderDone s else s)"

section \<open>Push protocol\<close>

text \<open>A string is truthy when it is neither \<open>null\<close> nor empty.\<close>

definition truthy_str :: "string option \<Rightarrow> bool" where
  "truthy_str m = (case m of None \<Rightarrow> False | Some t \<Rightarrow> t \<noteq> [])"

definition push_log ::
  "('f, 'p, 'w, 'a) env \<Rightarrow> provider \<Rightarrow> string option \<Rightarrow> (string \<Rightarrow> message)
     \<Rightarrow> ('f, 'p, 'w) state \<Rightarrow> ('f, 'p, 'w) state" where
  "push_log env this logMessage mk s =
     (case logMessage of
        None \<Rightarrow> s
      | Some t \<Rightarrow>
          if \<not> production env \<and> truthy (withLogging (props this)) \<and> truthy_str (Some t)
          then log (Name (name (props this))) (mk t) s else s)"

definition pushFrontload ::
  "('f, 'p, 'w, 'a) env \<Rightarrow> provider \<Rightarrow> 'f \<Rightarrow> node_options \<Rightarrow> lifecycle_phase
     \<Rightarrow> 'p child_props \<Rightarrow> string option \<Rightarrow> ('f, 'p, 'w) state \<Rightarrow> error + ('f, 'p, 'w) state" where
  "pushFrontload env this frontload opts lifecylePhase childProps logMessage s =
     (let isMount = (lifecylePhase = MOUNT);
          isUpdate = (lifecylePhase = UPDATE);
          queue = lookup (FRONTLOAD_QUEUES s) (queueIndex this);
          noSR = (truthy (props_noServerRender (props this)) \<or> truthy (noServerRender opts));
          thunk = \<lparr>call_frontload = frontload, call_props = childProps,
                   call_isMount = isMount, call_isUpdate = isUpdate\<rparr>
      in
        if (isServer this \<and> noSR) \<or> (isMount \<and> onMount opts = Some False)
             \<or> (isUpdate \<and> \<not> truthy (onUpdate opts))
        then Inr s
        else if isServer this then
          (case queue of
             None \<Rightarrow> Inl TypeError
           | Some q \<Rightarrow>
               Inr (push_log env this logMessage AddedToQueue
                 (s\<lparr>FRONTLOAD_QUEUES :=
                      (FRONTLOAD_QUEUES s)[queueIndex this :=
                         Some (\<lparr>fn = thunk, options = opts,
                                 componentDisplayName = displayName childProps\<rparr> # q)]\<rparr>)))
        else if noSR \<or> firstClientRenderDone this then
          Inr (push_log env this logMessage ExecutedFrontload (s\<lparr>calls := calls s @ [thunk]\<rparr>))
        else Inr (push_log env this logMessage DidNotExecute s))"

text \<open>The node options with the defaults the source documents: onMount true, onUpdate false.\<close>

definition onMount_of :: "node_options \<Rightarrow> bool" where
  "onMount_of opts = (case onMount opts of None \<Rightarrow> True | Some b \<Rightarrow> b)"

definition onUpdate_of :: "node_options \<Rightarrow> bool" where
  "onUpdate_of opts = (case onUpdate opts of None \<Rightarrow> False | Some b \<Rightarrow> b)"

definition effectiveNoServerRender :: "provider \<Rightarrow> node_options \<Rightarrow> bool" where
  "effectiveNoServerRender this opts =
     (truthy (props_noServerRender (props this)) \<or> truthy (noServerRender opts))"

definition passes_gate :: "node_options \<Rightarrow> lifecycle_phase \<Rightarrow> bool" where
  "passes_gate opts ph = (case ph of MOUNT \<Rightarrow> onMount_of opts | UPDATE \<Rightarrow> onUpdate_of opts)"

section \<open>Promises\<close>

text \<open>
  Resolving a promise with a value at time \<open>t\<close>: a thenable is adopted, so the promise
  follows it (and, when the thenable fulfils, is resolved again with its value); any other
  value fulfils the promise.
\<close>

fun resolve_at :: "nat \<Rightarrow> 'a val \<Rightarrow> 'a promise" where
  "resolve_at t (Thenable None) = None"
| "resolve_at t (Thenable (Some (t', Fulfilled v))) = resolve_at (max t t') v"
| "resolve_at t (Thenable (Some (t', Rejected e))) = Some (max t t', Rejected e)"
| "resolve_at t v = Some (t, Fulfilled v)"

text \<open>
  \<open>promise['catch'](handler)\<close>: a fulfilment passes through; on a rejection the derived
  promise is resolved with the handler's result.
\<close>

definition promise_catch :: "('a val \<Rightarrow> 'a val) \<Rightarrow> 'a promise \<Rightarrow> 'a promise" where
  "promise_catch handler p =
     (case p of
        None \<Rightarrow> None
      | Some (t, Fulfilled v) \<Rightarrow> Some (t, Fulfilled v)
      | Some (t, Rejected e) \<Rightarrow> resolve_at t (handler e))"

text \<open>
  \<open>Promise.all\<close>: rejects as soon as one input rejects, with that input's reason (the
  earliest rejection, the lowest index among equal times); otherwise fulfils with the
  array of values once every input has fulfilled; otherwise never settles.
\<close>

fun first_rejection :: "'a promise list \<Rightarrow> (nat \<times> 'a val) option" where
  "first_rejection [] = None"
| "first_rejection (Some (t, Rejected e) # ps) =
     (case first_rejection ps of
        None \<Rightarrow> Some (t, e)
      | Some (t', e') \<Rightarrow> if t' < t then Some (t', e') else Some (t, e))"
| "first_rejection (_ # ps) = first_rejection ps"

fun all_fulfilled :: "'a promise list \<Rightarrow> (nat \<times> 'a val list) option" where
  "all_fulfilled [] = Some (0, [])"
| "all_fulfilled (Some (t, Fulfilled v) # ps) =
     (case all_fulfilled ps of
        None \<Rightarrow> None
      | Some (t', vs) \<Rightarrow> Some (max t t', v # vs))"
| "all_fulfilled (_ # ps) = None"

definition promise_all :: "'a promise list \<Rightarrow> 'a promise" where
  "promise_all ps =
     (case first_rejection ps of
        Some (t, e) \<Rightarrow> Some (t, Rejected e)
      | None \<Rightarrow>
          (case all_fulfilled ps of
             None \<Rightarrow> None
           | Some (t, vs) \<Rightarrow> Some (t, Fulfilled (Array vs))))"

text \<open>The module's own \<open>map\<close> helper, for a callback without effects.\<close>

definition map_util :: "'x list \<Rightarrow> ('x \<Rightarrow> nat \<Rightarrow> 'y) \<Rightarrow> 'y list" where
  "map_util arr f = map (\<lambda>i. f (arr ! i) i) [0..<length arr]"

definition waitForAllToComplete :: "'a promise list \<Rightarrow> 'a promise" where
  "waitForAllToComplete promises =
     promise_all (map_util promises (\<lambda>promise _. promise_catch (\<lambda>error. error) promise))"

section \<open>Flush engine\<close>

record flush_options =
  firstClientRender :: bool
  flush_noServerRender :: bool
  flush_log :: bool

text \<open>The default \<open>options = {}\<close>: every field is \<open>undefined\<close>, hence falsy.\<close>

definition no_flush_options :: flush_options where
  "no_flush_options = \<lparr>firstClientRender = False, flush_noServerRender = False, flush_log = False\<rparr>"

text \<open>\<open>frontload.fn()\<close>: the invocation is recorded and the promise comes from the environment.\<close>

definition invoke ::
  "('f, 'p, 'w, 'a) env \<Rightarrow> ('f, 'p) call \<Rightarrow> ('f, 'p, 'w) state \<Rightarrow> 'a promise \<times> ('f, 'p, 'w) state" where
  "invoke env c s = (fetch env (length (calls s)) c, s\<lparr>calls := calls s @ [c]\<rparr>)"

text \<open>The \<open>for\<close> loop of \<open>flushQueues\<close> over the queue, with \<open>frontloadPromises\<close> as accumulator.\<close>

fun flush_loop ::
  "('f, 'p, 'w, 'a) env \<Rightarrow> flush_options \<Rightarrow> ('f, 'p) queued list \<Rightarrow> 'a promise list
     \<Rightarrow> ('f, 'p, 'w) state \<Rightarrow> 'a promise list \<times> ('f, 'p, 'w) state" where
  "flush_loop env opts [] frontloadPromises s = (frontloadPromises, s)"
| "flush_loop env opts (frontload # rest) frontloadPromises s =
     (if \<not> firstClientRender opts then
        (case invoke env (fn frontload) s of
           (p, s') \<Rightarrow> flush_loop env opts rest (frontloadPromises @ [p]) s')
      else if flush_noServerRender opts \<or> truthy (noServerRender (options frontload)) then
        (case invoke env (fn frontload)
                (if \<not> production env \<and> flush_log opts
                 then log FlushLogger
                        (RunningOnFirstClientRender (componentDisplayName frontload)
                           (flush_noServerRender opts)) s
                 else s) of
           (p, s') \<Rightarrow> flush_loop env opts rest (frontloadPromises @ [p]) s')
      else flush_loop env opts rest frontloadPromises s)"

text \<open>
  \<open>flushQueues(index, options)\<close> for a defined \<open>index\<close>. Reading \<open>queue.length\<close> of a
  missing queue throws; the state reached is returned with the exception.
\<close>

definition flushQueues_at ::
  "('f, 'p, 'w, 'a) env \<Rightarrow> nat \<Rightarrow> flush_options \<Rightarrow> ('f, 'p, 'w) state
     \<Rightarrow> (error + 'a promise) \<times> ('f, 'p, 'w) state" where
  "flushQueues_at env index opts s =
     (case lookup (FRONTLOAD_QUEUES s) index of
        None \<Rightarrow> (Inl TypeError, s)
      | Some queue \<Rightarrow>
          (case flush_loop env opts queue [] s of
             (frontloadPromises, s') \<Rightarrow>
               (Inr (waitForAllToComplete frontloadPromises), cleanQueues (Some index) s')))"

text \<open>
  \<open>map(FRONTLOAD_QUEUES, (_, i) => flushQueues(i))\<close>: the helper's loop with the flushing
  callback, called with the index alone, so that its options are the default.
\<close>

fun flush_each ::
  "('f, 'p, 'w, 'a) env \<Rightarrow> nat list \<Rightarrow> 'a promise list \<Rightarrow> ('f, 'p, 'w) state
     \<Rightarrow> (error + 'a promise list) \<times> ('f, 'p, 'w) state" where
  "flush_each env [] mapped s = (Inr mapped, s)"
| "flush_each env (i # is) mapped s =
     (case flushQueues_at env i no_flush_options s of
        (Inl e, s') \<Rightarrow> (Inl e, s')
      | (Inr p, s') \<Rightarrow> flush_each env is (mapped @ [p]) s')"

definition flushQueues ::
  "('f, 'p, 'w, 'a) env \<Rightarrow> nat option \<Rightarrow> flush_options \<Rightarrow> ('f, 'p, 'w) state
     \<Rightarrow> (error + 'a promise) \<times> ('f, 'p, 'w) state" where
  "flushQueues env index opts s =
     (case index of
        None \<Rightarrow>
          (case flush_each env [0..<length (FRONTLOAD_QUEUES s)] [] s of
             (Inl e, s') \<Rightarrow> (Inl e, s')
           | (Inr mapped, s') \<Rightarrow> (Inr (promise_all mapped), cleanQueues None s'))
      | Some i \<Rightarrow> flushQueues_at env i opts s)"

section \<open>Render-pass coordinator\<close>

record server_render_options =
  opt_withLogging :: "bool option"
  maxNestedFrontloadComponents :: "int option"

text \<open>
  What a call of the coordinator comes to: a synchronous exception, or a promise that
  never settles, resolves with the render output, or rejects.
\<close>

datatype 'a reason = Thrown error | Reason "'a val"

datatype ('out, 'a) result = Throws error | Pending | Resolves 'out | Rejects "'a reason"

text \<open>
  The renderer is an opaque synchronous function; node appearances during a render reach
  the registry, and the tree reads the store. Each invocation is recorded with its
  dry-run flag.
\<close>

type_synonym ('f, 'p, 'w, 'out) renderer =
  "bool \<Rightarrow> ('f, 'p) queued list option list \<times> 'w
     \<Rightarrow> 'out \<times> ('f, 'p) queued list option list \<times> 'w"

definition call_render ::
  "('f, 'p, 'w, 'out) renderer \<Rightarrow> bool \<Rightarrow> ('f, 'p, 'w) state \<Rightarrow> 'out \<times> ('f, 'p, 'w) state" where
  "call_render render dryRun s =
     (case render dryRun (FRONTLOAD_QUEUES s, store s) of
        (out, qs, w) \<Rightarrow>
          (out, s\<lparr>FRONTLOAD_QUEUES := qs, store := w, renders := renders s @ [dryRun]\<rparr>))"

definition wlog ::
  "('f, 'p, 'w, 'a) env \<Rightarrow> server_render_options \<Rightarrow> log_name \<Rightarrow> message
     \<Rightarrow> ('f, 'p, 'w) state \<Rightarrow> ('f, 'p, 'w) state" where
  "wlog env opts nm msg s =
     (if \<not> production env \<and> truthy (opt_withLogging opts) then log nm msg s else s)"

text \<open>The branch \<open>newFrontloadsInThisRender === 0\<close>: clean, final render, clean, resolve.\<close>

definition final_render ::
  "('f, 'p, 'w, 'a) env \<Rightarrow> ('f, 'p, 'w, 'out) renderer \<Rightarrow> server_render_options \<Rightarrow> int
     \<Rightarrow> ('f, 'p, 'w) state \<Rightarrow> ('out, 'a) result \<times> ('f, 'p, 'w) state" where
  "final_render env render opts renderNumber s =
     (case call_render render False
             (cleanQueues None
                (wlog env opts Info
                   (NoFrontloadsRemain renderNumber (maxNestedFrontloadComponents opts)) s)) of
        (finalRenderOutput, s') \<Rightarrow>
          (Resolves finalRenderOutput,
           cleanQueues None
             (wlog env opts Info FinalRenderSucceeded
                (wlog env opts Info QueuesFilledNotFlushed s'))))"

text \<open>
  The branch \<open>renderNumber === maxNestedFrontloadComponents\<close> of the \<open>then\<close> callback. An
  exception in the callback rejects the promise.
\<close>

definition incomplete_render ::
  "('f, 'p, 'w, 'a) env \<Rightarrow> ('f, 'p, 'w, 'out) renderer \<Rightarrow> server_render_options \<Rightarrow> int
     \<Rightarrow> ('f, 'p, 'w) state \<Rightarrow> ('out, 'a) result \<times> ('f, 'p, 'w) state" where
  "incomplete_render env render opts totalFrontloadsInThisRender s =
     (case call_render render False s of
        (incompleteRenderOutput, s') \<Rightarrow>
          (case lookup (FRONTLOAD_QUEUES s') 0 of
             None \<Rightarrow> (Rejects (Thrown TypeError), s')
           | Some frontloadsQueue \<Rightarrow>
               (let frontloadsLeftToRun = int (length frontloadsQueue) - totalFrontloadsInThisRender
                in (Resolves incompleteRenderOutput,
                    cleanQueues None
                      (if \<not> production env \<and> truthy (opt_withLogging opts) \<and> frontloadsLeftToRun > 0
                       then log Info (ExtraPassNotFlushed (maxNestedFrontloadComponents opts))
                              (log WARNING
                                 (MaxNestedReached (maxNestedFrontloadComponents opts)
                                    frontloadsLeftToRun) s')
                       else s')))))"

text \<open>A promise returned from a \<open>then\<close> callback is adopted; an exception thrown there rejects.\<close>

fun adopt :: "('out, 'a) result \<Rightarrow> ('out, 'a) result" where
  "adopt (Throws e) = Rejects (Thrown e)"
| "adopt r = r"

text \<open>
  The worker. It recurses from the \<open>then\<close> callback of the flush, so a run may never
  return: \<open>None\<close> is a run whose passes never end. The elapsed time in the log line
  of a flush is left out.
\<close>

partial_function (option) frontloadServerRenderWorker ::
  "('f, 'p, 'w, 'a) env \<Rightarrow> ('f, 'p, 'w, 'out) renderer \<Rightarrow> server_render_options \<Rightarrow> int \<Rightarrow> int
     \<Rightarrow> ('f, 'p, 'w) state \<Rightarrow> (('out, 'a) result \<times> ('f, 'p, 'w) state) option" where
  "frontloadServerRenderWorker env render opts renderNumber frontloadsInLastRender s =
     (let s1 = snd (call_render render True (wlog env opts Info (RunningRenderPass renderNumber) s))
      in case lookup (FRONTLOAD_QUEUES s1) 0 of
           None \<Rightarrow> Some (Throws TypeError, s1)
         | Some frontloadsQueue \<Rightarrow>
             (let s2 = wlog env opts Info
                         (TotalFrontloadsCount renderNumber (int (length frontloadsQueue))) s1;
                  totalFrontloadsInThisRender = int (length frontloadsQueue) + 0;
                  newFrontloadsInThisRender = totalFrontloadsInThisRender - frontloadsInLastRender
              in if newFrontloadsInThisRender = 0
                 then Some (final_render env render opts renderNumber s2)
                 else
                   (let s3 = wlog env opts Info
                               (FrontloadsToRun newFrontloadsInThisRender renderNumber) s2
                    in case flushQueues env None no_flush_options s3 of
                         (Inl e, s4) \<Rightarrow> Some (Throws e, s4)
                       | (Inr None, s4) \<Rightarrow> Some (Pending, s4)
                       | (Inr (Some (t, Rejected r)), s4) \<Rightarrow> Some (Rejects (Reason r), s4)
                       | (Inr (Some (t, Fulfilled v)), s4) \<Rightarrow>
                           (let s5 = wlog env opts Info
                                       (RanFrontloads renderNumber newFrontloadsInThisRender)
                                       (s4\<lparr>store :=
                                             settled_store env
                                               (drop (length (calls s3)) (calls s4)) (store s4)\<rparr>)
                            in if Some renderNumber = maxNestedFrontloadComponents opts
                               then Some (incomplete_render env render opts
                                            totalFrontloadsInThisRender s5)
                               else Option.bind
                                      (frontloadServerRenderWorker env render opts
                                         (renderNumber + 1)
                                         (frontloadsInLastRender + newFrontloadsInThisRender) s5)
                                      (\<lambda>(r, s'). Some (adopt r, s'))))))"

declare frontloadServerRenderWorker.simps [code]

text \<open>The public entry point: defaults for the options, then the worker at pass 1.\<close>

definition frontloadServerRender ::
  "('f, 'p, 'w, 'a) env \<Rightarrow> ('f, 'p, 'w, 'out) renderer \<Rightarrow> server_render_options option
     \<Rightarrow> ('f, 'p, 'w) state \<Rightarrow> (('out, 'a) result \<times> ('f, 'p, 'w) state) option" where
  "frontloadServerRender env render opts s =
     (let options1 = (case opts of
                        None \<Rightarrow> \<lparr>opt_withLogging = None, maxNestedFrontloadComponents = None\<rparr>
                      | Some given \<Rightarrow> given);
          options2 = (if maxNestedFrontloadComponents options1 = None
                         \<or> maxNestedFrontloadComponents options1 = Some 0
                      then options1\<lparr>maxNestedFrontloadComponents := Some 1\<rparr> else options1);
          options3 = (if \<not> production env \<and> opt_withLogging options2 = None
                      then options2\<lparr>opt_withLogging := Some True\<rparr> else options2)
      in frontloadServerRenderWorker env render options3 1 0 s)"

section \<open>Notions used in the statements\<close>

text \<open>The requests a flush with the given options invokes: the condition of the loop body.\<close>

definition eligible :: "flush_options \<Rightarrow> ('f, 'p) queued \<Rightarrow> bool" where
  "eligible opts frontload =
     (\<not> firstClientRender opts \<or> flush_noServerRender opts
        \<or> truthy (noServerRender (options frontload)))"

text \<open>
  The promises a list of invocations returns, when \<open>n\<close> invocations have been made so far.
\<close>

fun returned :: "('f, 'p, 'w, 'a) env \<Rightarrow> nat \<Rightarrow> ('f, 'p) call list \<Rightarrow> 'a promise list" where
  "returned env n [] = []"
| "returned env n (c # cs) = fetch env n c # returned env (Suc n) cs"

text \<open>
  A promise is plain when it does not reject with a thenable as its reason. It is
  absorbed when \<open>promise['catch'](error => error)\<close> on it fulfils: it fulfils itself, or
  rejects with a reason that is no thenable, or with a thenable that ends in a fulfilment.
\<close>

definition plain :: "'a promise \<Rightarrow> bool" where
  "plain p = (case p of Some (t, Rejected (Thenable q)) \<Rightarrow> False | _ \<Rightarrow> True)"


text \<open>The requests of a slot; a hole has none.\<close>

definition slot_requests :: "('f, 'p) queued list option \<Rightarrow> ('f, 'p) queued list" where
  "slot_requests q = (case q of None \<Rightarrow> [] | Some requests \<Rightarrow> requests)"


text \<open>The lines logged under \<open>frontloadServerRender WARNING\<close>.\<close>

definition warnings :: "(log_name \<times> message) list \<Rightarrow> (log_name \<times> message) list" where
  "warnings ls = filter (\<lambda>entry. fst entry = WARNING) ls"


text \<open>What is observed of a run: its outcome, the renderer invocations and the warnings logged.\<close>

definition run_summary ::
  "(('out, 'a) result \<times> ('f, 'p, 'w) state) option
     \<Rightarrow> (('out, 'a) result \<times> bool list \<times> (log_name \<times> message) list) option" where
  "run_summary r =
     (case r of None \<Rightarrow> None | Some (res, s') \<Rightarrow> Some (res, renders s', warnings (logs s')))"

text \<open>
  The options the entry point hands to the worker: the budget given, or 1 when there are no
  options, no budget or the budget 0; the logging flag given, or true outside production
  when none is given.
\<close>

definition effective_budget :: "server_render_options option \<Rightarrow> int" where
  "effective_budget given =
     (case given of
        None \<Rightarrow> 1
      | Some opts \<Rightarrow>
          (case maxNestedFrontloadComponents opts of
             None \<Rightarrow> 1
           | Some m \<Rightarrow> if m = 0 then 1 else m))"

definition effective_logging ::
  "('f, 'p, 'w, 'a) env \<Rightarrow> server_render_options option \<Rightarrow> bool option" where
  "effective_logging env given =
     (case (case given of None \<Rightarrow> None | Some opts \<Rightarrow> opt_withLogging opts) of
        None \<Rightarrow> if production env then None else Some True
      | Some b \<Rightarrow> Some b)"

subsection \<open>Sequences of registry operations\<close>

text \<open>
  The registry is changed by provider construction (an allocation) and by \<open>cleanQueues\<close>.
  \<open>registry_run\<close> performs a sequence of these and lists the indices the allocations return.
\<close>

datatype registry_op = Allocate provider_props | Clean "nat option"

fun registry_run ::
  "('f, 'p, 'w, 'a) env \<Rightarrow> registry_op list \<Rightarrow> ('f, 'p, 'w) state \<Rightarrow> nat list" where
  "registry_run env [] s = []"
| "registry_run env (Allocate ps # ops) s =
     (case Frontload_constructor env ps s of
        (this, s') \<Rightarrow> queueIndex this # registry_run env ops s')"
| "registry_run env (Clean index # ops) s = registry_run env ops (cleanQueues index s)"

section \<open>Concrete inputs\<close>

text \<open>
  Two environments: in \<open>env0\<close> every fetch resolves; in \<open>env1\<close> fetch 1 resolves at time
  10, fetch 2 rejects at time 20 with 401, fetch 3 resolves at time 30. In both, the store
  counts the fetches that have settled.
\<close>

definition env0 :: "(nat, unit, nat, nat) env" where
  "env0 = \<lparr>production = False, IS_SERVER = True,
            fetch = (\<lambda>n c. Some (n, Fulfilled (Atom (call_frontload c)))),
            settled_store = (\<lambda>cs w. w + length cs)\<rparr>"

definition state0 :: "(nat, unit, nat) state" where
  "state0 = \<lparr>FRONTLOAD_QUEUES = [], store = 0, calls = [], renders = [], logs = []\<rparr>"

definition props0 :: provider_props where
  "props0 = \<lparr>props_isServer = Some True, props_noServerRender = None,
              withLogging = None, name = None\<rparr>"

definition client0 :: provider where
  "client0 = \<lparr>props = props0\<lparr>props_isServer := Some False\<rparr>, isServer = False,
               queueIndex = 0, firstClientRenderDone = False\<rparr>"

definition server0 :: provider where
  "server0 = \<lparr>props = props0, isServer = True, queueIndex = 0, firstClientRenderDone = False\<rparr>"

definition opts0 :: node_options where
  "opts0 = \<lparr>onMount = None, onUpdate = None, noServerRender = None\<rparr>"

definition cprops0 :: "unit child_props" where
  "cprops0 = \<lparr>displayName = None, payload = ()\<rparr>"

definition state1 :: "(nat, unit, nat) state" where
  "state1 = state0\<lparr>FRONTLOAD_QUEUES := [Some []]\<rparr>"

definition request :: "nat \<Rightarrow> (nat, unit) queued" where
  "request k = \<lparr>fn = \<lparr>call_frontload = k, call_props = cprops0,
                        call_isMount = True, call_isUpdate = False\<rparr>,
                 options = opts0, componentDisplayName = None\<rparr>"

definition env1 :: "(nat, unit, nat, nat) env" where
  "env1 = \<lparr>production = False, IS_SERVER = True,
            fetch = (\<lambda>n c. if call_frontload c = 2 then Some (20, Rejected (Atom 401))
                           else Some (10 * call_frontload c, Fulfilled (Atom (call_frontload c)))),
            settled_store = (\<lambda>cs w. w + length cs)\<rparr>"

text \<open>
  In \<open>env2\<close> fetch 2 rejects at time 20 with a thenable as its reason, a promise that
  itself rejects with 401 at time 25; the other fetches are as in \<open>env1\<close>.
\<close>

definition env2 :: "(nat, unit, nat, nat) env" where
  "env2 = \<lparr>production = False, IS_SERVER = True,
            fetch = (\<lambda>n c. if call_frontload c = 2
                           then Some (20, Rejected (Thenable (Some (25, Rejected (Atom 401)))))
                           else Some (10 * call_frontload c, Fulfilled (Atom (call_frontload c)))),
            settled_store = (\<lambda>cs w. w + length cs)\<rparr>"

definition state2 :: "(nat, unit, nat) state" where
  "state2 = state0\<lparr>FRONTLOAD_QUEUES := [Some [request 1, request 2, request 3], Some [request 4]]\<rparr>"

text \<open>
  Two renderers. Each render constructs one provider (a new slot at the end of the
  registry). \<open>render_flat\<close> enqueues one request in it; \<open>render_nested\<close> enqueues one
  request while the store is empty and three once data has arrived, as a tree does whose
  children appear only after the parent's data has loaded.
\<close>

definition render_flat :: "(nat, unit, nat, nat) renderer" where
  "render_flat dryRun = (\<lambda>(qs, w). (w, qs @ [Some [request 1]], w))"

definition render_nested :: "(nat, unit, nat, nat) renderer" where
  "render_nested dryRun =
     (\<lambda>(qs, w). (w, qs @ [Some (if w = 0 then [request 1]
                                else [request 3, request 2, request 1])], w))"

definition logging :: "int \<Rightarrow> server_render_options" where
  "logging m = \<lparr>opt_withLogging = Some True, maxNestedFrontloadComponents = Some m\<rparr>"

definition first_client_options :: flush_options where
  "first_client_options =
     \<lparr>firstClientRender = True, flush_noServerRender = False, flush_log = False\<rparr>"

section \<open>Verification\<close>

subsection \<open>Registry\<close>

lemma length_assign: "length arr \<le> length (assign arr i v)"
  by (simp add: assign_def)

lemma registry_run_lower:
  "Clean None \<notin> set ops \<Longrightarrow> i \<in> set (registry_run env ops s) \<Longrightarrow> length (FRONTLOAD_QUEUES s) \<le> i"
proof (induction ops arbitrary: s)
  case Nil
  then show ?case by simp
next
  case (Cons op ops)
  show ?case
  proof (cases op)
    case (Allocate ps)
    with Cons show ?thesis
      by (fastforce simp: Frontload_constructor_def)
  next
    case (Clean index)
    with Cons.prems obtain j where j: "index = Some j" by (cases index) auto
    from Cons.prems Clean have "i \<in> set (registry_run env ops (cleanQueues index s))" by simp
    with Cons.IH[of "cleanQueues index s"] Cons.prems
    have "length (FRONTLOAD_QUEUES (cleanQueues index s)) \<le> i" by simp
    with j length_assign[of "FRONTLOAD_QUEUES s" j "[]"] show ?thesis
      by (simp add: cleanQueues_def)
  qed
qed

lemma registry_run_sorted:
  "Clean None \<notin> set ops \<Longrightarrow> sorted_wrt (<) (registry_run env ops s)"
proof (induction ops arbitrary: s)
  case Nil
  then show ?case by simp
next
  case (Cons op ops)
  show ?case
  proof (cases op)
    case (Allocate ps)
    have "\<And>i. i \<in> set (registry_run env ops (snd (Frontload_constructor env ps s)))
            \<Longrightarrow> length (FRONTLOAD_QUEUES s) < i"
      using registry_run_lower[of ops _ env "snd (Frontload_constructor env ps s)"] Cons.prems
      by (fastforce simp: Frontload_constructor_def)
    with Cons Allocate show ?thesis
      by (auto simp: Frontload_constructor_def split: prod.splits)
  next
    case (Clean index)
    with Cons show ?thesis by simp
  qed
qed

text \<open>
  C9, as stated, fails: \<open>cleanQueues()\<close> assigns a new empty array to \<open>FRONTLOAD_QUEUES\<close>,
  so the allocation after a global reset returns index 0 again. Here two providers are
  constructed with one global reset between them, and both receive index 0.
\<close>

theorem allocate_reuses_index_after_resetAll:
  "registry_run env0 [Allocate props0, Clean None, Allocate props0] state0 = [0, 0]"
  by (simp add: Frontload_constructor_def cleanQueues_def state0_def)

text \<open>
  C9, amended: in a sequence of allocations and single-slot resets with no global reset,
  the indices the allocations return are strictly increasing (so none is returned twice)
  and none is below the number of slots at the start; a global reset empties the
  registry, and the allocation that follows it returns 0.
\<close>

theorem allocate_increasing_between_global_resets:
  "Clean None \<notin> set ops \<Longrightarrow>
     sorted_wrt (<) (registry_run env ops s)
     \<and> (\<forall>i \<in> set (registry_run env ops s). length (FRONTLOAD_QUEUES s) \<le> i)
     \<and> queueIndex (fst (Frontload_constructor env ps (cleanQueues None s))) = 0"
  using registry_run_sorted registry_run_lower
  by (fastforce simp: Frontload_constructor_def cleanQueues_def)

theorem allocate_increasing_between_global_resets_witness:
  "Clean None \<notin> set [Allocate props0, Clean (Some 0), Allocate props0]
   \<and> registry_run env0 [Allocate props0, Clean (Some 0), Allocate props0] state0 = [0, 1]
   \<and> sorted_wrt (<) (registry_run env0 [Allocate props0, Clean (Some 0), Allocate props0] state0)"
  using allocate_increasing_between_global_resets
          [of "[Allocate props0, Clean (Some 0), Allocate props0]" env0 state0 props0]
  by (simp add: Frontload_constructor_def cleanQueues_def assign_def state0_def)

subsection \<open>Push protocol\<close>

lemma push_log_frame:
  "FRONTLOAD_QUEUES (push_log env this lm mk s) = FRONTLOAD_QUEUES s"
  "calls (push_log env this lm mk s) = calls s"
  "store (push_log env this lm mk s) = store s"
  "renders (push_log env this lm mk s) = renders s"
  by (simp_all add: push_log_def log_def split: option.splits)

lemma gate_iff:
  "((ph = MOUNT \<and> onMount opts = Some False) \<or> (ph = UPDATE \<and> \<not> truthy (onUpdate opts)))
     = (\<not> passes_gate opts ph)"
  by (cases ph; cases "onMount opts"; cases "onUpdate opts")
     (auto simp: passes_gate_def onMount_of_def onUpdate_of_def truthy_def)

lemma lookup_update:
  "lookup (arr[i := v]) j = (if j = i \<and> i < length arr then v else lookup arr j)"
  by (simp add: lookup_def)

text \<open>
  C2: a push on the server. With the effective noServerRender set, or a mount with onMount
  false, or an update with onUpdate false, the push returns with the state untouched:
  nothing is enqueued and no fetch function is invoked. Otherwise the request is put at
  the front of the provider's queue, every other queue is as before, and no fetch
  function is invoked. The provider's queue is the one read at \<open>FRONTLOAD_QUEUES[queueIndex]\<close>;
  if the registry no longer holds it, \<open>queue.unshift\<close> throws.
\<close>

theorem pushFrontload_on_server:
  assumes "isServer this"
  shows "(effectiveNoServerRender this opts \<or> (ph = MOUNT \<and> \<not> onMount_of opts)
            \<or> (ph = UPDATE \<and> \<not> onUpdate_of opts)
          \<longrightarrow> pushFrontload env this frontload opts ph childProps logMessage s = Inr s)
       \<and> (\<not> (effectiveNoServerRender this opts \<or> (ph = MOUNT \<and> \<not> onMount_of opts)
               \<or> (ph = UPDATE \<and> \<not> onUpdate_of opts))
          \<longrightarrow> (case lookup (FRONTLOAD_QUEUES s) (queueIndex this) of
                 None \<Rightarrow> pushFrontload env this frontload opts ph childProps logMessage s
                           = Inl TypeError
               | Some q \<Rightarrow>
                   (\<exists>s'. pushFrontload env this frontload opts ph childProps logMessage s = Inr s'
                      \<and> lookup (FRONTLOAD_QUEUES s') (queueIndex this)
                          = Some (\<lparr>fn = \<lparr>call_frontload = frontload, call_props = childProps,
                                          call_isMount = (ph = MOUNT),
                                          call_isUpdate = (ph = UPDATE)\<rparr>,
                                    options = opts,
                                    componentDisplayName = displayName childProps\<rparr> # q)
                      \<and> (\<forall>j. j \<noteq> queueIndex this
                             \<longrightarrow> lookup (FRONTLOAD_QUEUES s') j = lookup (FRONTLOAD_QUEUES s) j)
                      \<and> length (FRONTLOAD_QUEUES s') = length (FRONTLOAD_QUEUES s)
                      \<and> calls s' = calls s \<and> store s' = store s)))"
proof -
  have skip: "((ph = MOUNT \<and> \<not> onMount_of opts) \<or> (ph = UPDATE \<and> \<not> onUpdate_of opts))
                = (\<not> passes_gate opts ph)"
    by (cases ph) (auto simp: passes_gate_def)
  show ?thesis
  proof (cases "effectiveNoServerRender this opts \<or> \<not> passes_gate opts ph")
    case True
    then show ?thesis
      using assms gate_iff[of ph opts] skip
      by (auto simp: pushFrontload_def Let_def effectiveNoServerRender_def)
  next
    case False
    then have run: "pushFrontload env this frontload opts ph childProps logMessage s =
      (case lookup (FRONTLOAD_QUEUES s) (queueIndex this) of
         None \<Rightarrow> Inl TypeError
       | Some q \<Rightarrow>
           Inr (push_log env this logMessage AddedToQueue
             (s\<lparr>FRONTLOAD_QUEUES :=
                  (FRONTLOAD_QUEUES s)[queueIndex this :=
                     Some (\<lparr>fn = \<lparr>call_frontload = frontload, call_props = childProps,
                                   call_isMount = (ph = MOUNT), call_isUpdate = (ph = UPDATE)\<rparr>,
                             options = opts,
                             componentDisplayName = displayName childProps\<rparr> # q)]\<rparr>)))"
      using assms gate_iff[of ph opts]
      by (auto simp: pushFrontload_def Let_def effectiveNoServerRender_def split: option.splits)
    from False skip
    have no_skip: "\<not> (effectiveNoServerRender this opts \<or> (ph = MOUNT \<and> \<not> onMount_of opts)
                        \<or> (ph = UPDATE \<and> \<not> onUpdate_of opts))"
      by blast
    show ?thesis
    proof (intro conjI impI)
      assume "effectiveNoServerRender this opts \<or> (ph = MOUNT \<and> \<not> onMount_of opts)
                \<or> (ph = UPDATE \<and> \<not> onUpdate_of opts)"
      with no_skip show "pushFrontload env this frontload opts ph childProps logMessage s = Inr s"
        by blast
    next
      show "case lookup (FRONTLOAD_QUEUES s) (queueIndex this) of
              None \<Rightarrow> pushFrontload env this frontload opts ph childProps logMessage s
                        = Inl TypeError
            | Some q \<Rightarrow>
                (\<exists>s'. pushFrontload env this frontload opts ph childProps logMessage s = Inr s'
                   \<and> lookup (FRONTLOAD_QUEUES s') (queueIndex this)
                       = Some (\<lparr>fn = \<lparr>call_frontload = frontload, call_props = childProps,
                                       call_isMount = (ph = MOUNT),
                                       call_isUpdate = (ph = UPDATE)\<rparr>,
                                 options = opts,
                                 componentDisplayName = displayName childProps\<rparr> # q)
                   \<and> (\<forall>j. j \<noteq> queueIndex this
                          \<longrightarrow> lookup (FRONTLOAD_QUEUES s') j = lookup (FRONTLOAD_QUEUES s) j)
                   \<and> length (FRONTLOAD_QUEUES s') = length (FRONTLOAD_QUEUES s)
                   \<and> calls s' = calls s \<and> store s' = store s)"
      proof (cases "lookup (FRONTLOAD_QUEUES s) (queueIndex this)")
        case None
        with run show ?thesis by simp
      next
        case (Some q)
        then have "queueIndex this < length (FRONTLOAD_QUEUES s)"
          by (auto simp: lookup_def split: if_splits)
        with run Some show ?thesis
          by (simp add: push_log_frame lookup_update)
      qed
    qed
  qed
qed

theorem pushFrontload_on_server_witness:
  "isServer server0
   \<and> pushFrontload env0 server0 (7::nat) opts0 UPDATE cprops0 None state1 = Inr state1
   \<and> (\<exists>s'. pushFrontload env0 server0 (7::nat) opts0 MOUNT cprops0 None state1 = Inr s'
         \<and> lookup (FRONTLOAD_QUEUES s') (queueIndex server0)
             = Some [\<lparr>fn = \<lparr>call_frontload = 7, call_props = cprops0,
                             call_isMount = True, call_isUpdate = False\<rparr>,
                       options = opts0, componentDisplayName = displayName cprops0\<rparr>]
         \<and> calls s' = calls state1)"
proof -
  have srv: "isServer server0"
    by (simp add: server0_def)
  have slot: "lookup (FRONTLOAD_QUEUES state1) (queueIndex server0) = Some []"
    by (simp add: lookup_def state1_def server0_def)
  have eff: "\<not> effectiveNoServerRender server0 opts0"
    by (simp add: effectiveNoServerRender_def server0_def opts0_def props0_def truthy_def)
  have gate: "onMount_of opts0" "\<not> onUpdate_of opts0"
    by (simp_all add: onMount_of_def onUpdate_of_def opts0_def)
  show ?thesis
    using pushFrontload_on_server [OF srv, of opts0 UPDATE env0 7 cprops0 None state1]
          pushFrontload_on_server [OF srv, of opts0 MOUNT env0 7 cprops0 None state1]
          srv slot eff gate
    by auto
qed

text \<open>
  C3: a push on the client that passes the lifecycle gate. With the effective
  noServerRender false and the latch \<open>firstClientRenderDone\<close> false, nothing is invoked and
  nothing is enqueued. With the effective noServerRender true or the latch true, the fetch
  function is invoked at once, nothing is enqueued, and the push returns nothing of the
  invocation's promise. \<open>componentDidMount\<close> sets the latch.
\<close>

theorem pushFrontload_on_client:
  assumes "\<not> isServer this" and "passes_gate opts ph"
  shows "(\<not> effectiveNoServerRender this opts \<and> \<not> firstClientRenderDone this
          \<longrightarrow> (\<exists>s'. pushFrontload env this frontload opts ph childProps logMessage s = Inr s'
                 \<and> calls s' = calls s \<and> FRONTLOAD_QUEUES s' = FRONTLOAD_QUEUES s
                 \<and> store s' = store s))
       \<and> (effectiveNoServerRender this opts \<or> firstClientRenderDone this
          \<longrightarrow> (\<exists>s'. pushFrontload env this frontload opts ph childProps logMessage s = Inr s'
                 \<and> calls s' = calls s @ [\<lparr>call_frontload = frontload, call_props = childProps,
                                           call_isMount = (ph = MOUNT),
                                           call_isUpdate = (ph = UPDATE)\<rparr>]
                 \<and> FRONTLOAD_QUEUES s' = FRONTLOAD_QUEUES s \<and> store s' = store s))
       \<and> firstClientRenderDone (fst (componentDidMount env this s))"
  using assms gate_iff[of ph opts]
  by (auto simp: pushFrontload_def Let_def effectiveNoServerRender_def push_log_frame
        componentDidMount_def)

theorem pushFrontload_on_client_witness:
  "\<not> isServer client0 \<and> passes_gate opts0 MOUNT
   \<and> (\<exists>s'. pushFrontload env0 client0 (7::nat) opts0 MOUNT cprops0 None state1 = Inr s'
         \<and> calls s' = calls state1 \<and> FRONTLOAD_QUEUES s' = FRONTLOAD_QUEUES state1)
   \<and> (\<exists>s'. pushFrontload env0 (fst (componentDidMount env0 client0 state1)) (7::nat) opts0 MOUNT
              cprops0 None state1 = Inr s'
         \<and> calls s' = calls state1 @ [\<lparr>call_frontload = 7, call_props = cprops0,
                         call_isMount = True, call_isUpdate = False\<rparr>]
         \<and> FRONTLOAD_QUEUES s' = FRONTLOAD_QUEUES state1)"
proof -
  have cl: "\<not> isServer client0" "\<not> isServer (fst (componentDidMount env0 client0 state1))"
    by (simp_all add: client0_def componentDidMount_def)
  have gate: "passes_gate opts0 MOUNT"
    by (simp add: passes_gate_def onMount_of_def opts0_def)
  have eff: "\<not> effectiveNoServerRender client0 opts0" "\<not> firstClientRenderDone client0"
    by (simp_all add: effectiveNoServerRender_def client0_def opts0_def props0_def truthy_def)
  show ?thesis
    using pushFrontload_on_client [OF cl(1) gate, of env0 7 cprops0 None state1]
          pushFrontload_on_client [OF cl(2) gate, of env0 7 cprops0 None state1]
          cl gate eff
    by auto
qed

subsection \<open>Flush engine\<close>

lemma length_returned: "length (returned env n cs) = length cs"
  by (induction cs arbitrary: n) auto

lemma invoke_simps:
  "fst (invoke env c s) = fetch env (length (calls s)) c"
  "calls (snd (invoke env c s)) = calls s @ [c]"
  "FRONTLOAD_QUEUES (snd (invoke env c s)) = FRONTLOAD_QUEUES s"
  "store (snd (invoke env c s)) = store s"
  "renders (snd (invoke env c s)) = renders s"
  by (simp_all add: invoke_def)

lemma log_frame:
  "calls (log nm msg s) = calls s"
  "FRONTLOAD_QUEUES (log nm msg s) = FRONTLOAD_QUEUES s"
  "store (log nm msg s) = store s"
  "renders (log nm msg s) = renders s"
  by (simp_all add: log_def)

lemma flush_loop_run:
  "fst (flush_loop env opts queue acc s)
     = acc @ returned env (length (calls s)) (map fn (filter (eligible opts) queue))
   \<and> calls (snd (flush_loop env opts queue acc s))
       = calls s @ map fn (filter (eligible opts) queue)
   \<and> FRONTLOAD_QUEUES (snd (flush_loop env opts queue acc s)) = FRONTLOAD_QUEUES s
   \<and> store (snd (flush_loop env opts queue acc s)) = store s
   \<and> renders (snd (flush_loop env opts queue acc s)) = renders s"
proof (induction queue arbitrary: acc s)
  case Nil
  then show ?case by simp
next
  case (Cons frontload rest)
  show ?case
  proof (cases "eligible opts frontload")
    case False
    with Cons[of acc s] show ?thesis
      by (simp add: eligible_def)
  next
    case True
    show ?thesis
    proof (cases "firstClientRender opts")
      case False
      with True Cons[of "acc @ [fst (invoke env (fn frontload) s)]" "snd (invoke env (fn frontload) s)"]
      show ?thesis
        by (simp add: invoke_simps case_prod_beta)
    next
      case fcr: True
      define s1 where "s1 = (if \<not> production env \<and> flush_log opts
                 then log FlushLogger
                        (RunningOnFirstClientRender (componentDisplayName frontload)
                           (flush_noServerRender opts)) s
                 else s)"
      have s1: "calls s1 = calls s" "FRONTLOAD_QUEUES s1 = FRONTLOAD_QUEUES s"
        "store s1 = store s" "renders s1 = renders s"
        by (simp_all add: s1_def log_frame)
      from True fcr have br: "flush_noServerRender opts \<or> truthy (noServerRender (options frontload))"
        by (simp add: eligible_def)
      have step: "flush_loop env opts (frontload # rest) acc s
        = flush_loop env opts rest (acc @ [fst (invoke env (fn frontload) s1)])
            (snd (invoke env (fn frontload) s1))"
        using fcr br by (simp add: case_prod_beta s1_def)
      have filt: "filter (eligible opts) (frontload # rest) = frontload # filter (eligible opts) rest"
        using True by simp
      show ?thesis
        unfolding step filt
        using Cons[of "acc @ [fst (invoke env (fn frontload) s1)]" "snd (invoke env (fn frontload) s1)"]
        by (simp add: invoke_simps s1)
    qed
  qed
qed

lemma map_util_map: "map_util arr (\<lambda>x _. f x) = map f arr"
  unfolding map_util_def by (rule nth_equalityI) simp_all

lemma lookup_Some_less: "lookup arr i = Some q \<Longrightarrow> i < length arr \<and> arr ! i = Some q"
  by (auto simp: lookup_def split: if_splits)

lemma cleanQueues_frame:
  "calls (cleanQueues index s) = calls s"
  "store (cleanQueues index s) = store s"
  "renders (cleanQueues index s) = renders s"
  "logs (cleanQueues index s) = logs s"
  by (simp_all add: cleanQueues_def split: option.splits)

lemma cleanQueues_slot:
  "i < length (FRONTLOAD_QUEUES s) \<Longrightarrow>
     FRONTLOAD_QUEUES (cleanQueues (Some i) s) = (FRONTLOAD_QUEUES s)[i := Some []]"
  by (simp add: cleanQueues_def assign_def)

lemma cleanQueues_all: "FRONTLOAD_QUEUES (cleanQueues None s) = []"
  by (simp add: cleanQueues_def)

lemma flushQueues_at_run:
  assumes "lookup (FRONTLOAD_QUEUES s) index = Some queue"
  shows "\<exists>s'. flushQueues_at env index opts s =
            (Inr (waitForAllToComplete
                    (returned env (length (calls s)) (map fn (filter (eligible opts) queue)))), s')
         \<and> FRONTLOAD_QUEUES s' = (FRONTLOAD_QUEUES s)[index := Some []]
         \<and> calls s' = calls s @ map fn (filter (eligible opts) queue)
         \<and> store s' = store s \<and> renders s' = renders s"
proof -
  from assms have less: "index < length (FRONTLOAD_QUEUES s)"
    by (simp add: lookup_Some_less)
  note run = flush_loop_run[of env opts queue "[]" s]
  have "flushQueues_at env index opts s =
          (Inr (waitForAllToComplete (fst (flush_loop env opts queue [] s))),
           cleanQueues (Some index) (snd (flush_loop env opts queue [] s)))"
    using assms by (simp add: flushQueues_at_def case_prod_beta)
  with run less show ?thesis
    by (simp add: cleanQueues_frame cleanQueues_slot)
qed

lemma pushFrontload_enqueue:
  assumes "isServer this" and "\<not> effectiveNoServerRender this opts" and "passes_gate opts ph"
    and "lookup (FRONTLOAD_QUEUES s) (queueIndex this) = Some q"
  shows "pushFrontload env this frontload opts ph childProps logMessage s =
           Inr (push_log env this logMessage AddedToQueue
             (s\<lparr>FRONTLOAD_QUEUES :=
                  (FRONTLOAD_QUEUES s)[queueIndex this :=
                     Some (\<lparr>fn = \<lparr>call_frontload = frontload, call_props = childProps,
                                   call_isMount = (ph = MOUNT), call_isUpdate = (ph = UPDATE)\<rparr>,
                             options = opts,
                             componentDisplayName = displayName childProps\<rparr> # q)]\<rparr>))"
  using assms gate_iff[of ph opts]
  by (auto simp: pushFrontload_def Let_def effectiveNoServerRender_def)

lemma eligible_no_flush_options: "filter (eligible no_flush_options) queue = queue"
  by (simp add: eligible_def no_flush_options_def)

text \<open>
  C4: a single-slot flush returns its promise together with a registry in which the
  flushed slot is already the empty queue; the requests it invoked are those that were in
  the slot, and its promise is the settle-join of their promises alone. A request pushed
  into the slot after that lands in the fresh empty queue (it is not dropped), leaves the
  invocations untouched (it is not absorbed), and the next flush of the slot invokes that
  request and nothing else (nothing is counted twice).
\<close>

theorem flush_resets_slot_before_settling:
  assumes slot: "lookup (FRONTLOAD_QUEUES s) index = Some queue"
    and late: "isServer this" "queueIndex this = index"
      "\<not> effectiveNoServerRender this nopts" "passes_gate nopts ph"
  shows "\<exists>p s'. flushQueues env (Some index) opts s = (Inr p, s')
          \<and> lookup (FRONTLOAD_QUEUES s') index = Some []
          \<and> calls s' = calls s @ map fn (filter (eligible opts) queue)
          \<and> p = waitForAllToComplete
                  (returned env (length (calls s)) (map fn (filter (eligible opts) queue)))
          \<and> (\<exists>s''. pushFrontload env this frontload nopts ph childProps logMessage s' = Inr s''
                \<and> lookup (FRONTLOAD_QUEUES s'') index
                    = Some [\<lparr>fn = \<lparr>call_frontload = frontload, call_props = childProps,
                                    call_isMount = (ph = MOUNT), call_isUpdate = (ph = UPDATE)\<rparr>,
                              options = nopts,
                              componentDisplayName = displayName childProps\<rparr>]
                \<and> calls s'' = calls s'
                \<and> (\<exists>p2 s3. flushQueues env (Some index) no_flush_options s'' = (Inr p2, s3)
                      \<and> calls s3 = calls s' @ [\<lparr>call_frontload = frontload, call_props = childProps,
                                call_isMount = (ph = MOUNT), call_isUpdate = (ph = UPDATE)\<rparr>]
                      \<and> lookup (FRONTLOAD_QUEUES s3) index = Some []))"
proof -
  from slot have less: "index < length (FRONTLOAD_QUEUES s)"
    by (simp add: lookup_Some_less)
  from flushQueues_at_run[OF slot, of env opts] obtain s' where
    f1: "flushQueues_at env index opts s =
            (Inr (waitForAllToComplete
                    (returned env (length (calls s)) (map fn (filter (eligible opts) queue)))), s')"
    and q1: "FRONTLOAD_QUEUES s' = (FRONTLOAD_QUEUES s)[index := Some []]"
    and c1: "calls s' = calls s @ map fn (filter (eligible opts) queue)"
    by blast
  from q1 less have slot1: "lookup (FRONTLOAD_QUEUES s') (queueIndex this) = Some []"
    by (simp add: lookup_update late(2))
  define r where "r = \<lparr>fn = \<lparr>call_frontload = frontload, call_props = childProps,
                                    call_isMount = (ph = MOUNT), call_isUpdate = (ph = UPDATE)\<rparr>,
                              options = nopts,
                              componentDisplayName = displayName childProps\<rparr>"
  define s'' where "s'' = push_log env this logMessage AddedToQueue
             (s'\<lparr>FRONTLOAD_QUEUES := (FRONTLOAD_QUEUES s')[queueIndex this := Some [r]]\<rparr>)"
  have p2: "pushFrontload env this frontload nopts ph childProps logMessage s' = Inr s''"
    using pushFrontload_enqueue[OF late(1) late(3) late(4) slot1, of env frontload childProps logMessage]
    by (simp add: s''_def r_def)
  have less1: "index < length (FRONTLOAD_QUEUES s')"
    using q1 less by simp
  have slot2: "lookup (FRONTLOAD_QUEUES s'') index = Some [r]"
    using less1 by (simp add: s''_def push_log_frame lookup_update late(2))
  have c2: "calls s'' = calls s'"
    by (simp add: s''_def push_log_frame)
  from flushQueues_at_run[OF slot2, of env no_flush_options] obtain s3 p3 where
    f3: "flushQueues_at env index no_flush_options s'' = (Inr p3, s3)"
    and q3: "FRONTLOAD_QUEUES s3 = (FRONTLOAD_QUEUES s'')[index := Some []]"
    and c3: "calls s3 = calls s'' @ map fn (filter (eligible no_flush_options) [r])"
    by blast
  have less2: "index < length (FRONTLOAD_QUEUES s'')"
    using slot2 by (simp add: lookup_Some_less)
  have slot3: "lookup (FRONTLOAD_QUEUES s3) index = Some []"
    using q3 less2 by (simp add: lookup_update)
  have c3': "calls s3 = calls s' @ [fn r]"
    using c3 c2 unfolding eligible_no_flush_options by simp
  show ?thesis
    using f1 slot1 c1 p2 slot2 c2 f3 c3' slot3
    by (simp add: flushQueues_def late(2) r_def)
qed

theorem flush_resets_slot_before_settling_witness:
  "lookup (FRONTLOAD_QUEUES state2) 0 = Some [request 1, request 2, request 3]
   \<and> isServer server0 \<and> queueIndex server0 = 0
   \<and> \<not> effectiveNoServerRender server0 opts0 \<and> passes_gate opts0 MOUNT
   \<and> lookup (FRONTLOAD_QUEUES (snd (flushQueues env1 (Some 0) no_flush_options state2))) 0
       = Some []
   \<and> map call_frontload (calls (snd (flushQueues env1 (Some 0) no_flush_options state2)))
       = [1, 2, 3]
   \<and> pushFrontload env1 server0 9 opts0 MOUNT cprops0 None
        (snd (flushQueues env1 (Some 0) no_flush_options state2))
       = Inr ((snd (flushQueues env1 (Some 0) no_flush_options state2))
                \<lparr>FRONTLOAD_QUEUES := [Some [request 9], Some [request 4]]\<rparr>)
   \<and> (\<exists>p s'. flushQueues env1 (Some 0) no_flush_options state2 = (Inr p, s')
          \<and> lookup (FRONTLOAD_QUEUES s') 0 = Some []
          \<and> (\<exists>s''. pushFrontload env1 server0 9 opts0 MOUNT cprops0 None s' = Inr s''
                \<and> calls s'' = calls s'))"
proof -
  have h: "lookup (FRONTLOAD_QUEUES state2) 0 = Some [request 1, request 2, request 3]"
    "isServer server0" "queueIndex server0 = 0"
    "\<not> effectiveNoServerRender server0 opts0" "passes_gate opts0 MOUNT"
    by code_simp+
  have e: "lookup (FRONTLOAD_QUEUES (snd (flushQueues env1 (Some 0) no_flush_options state2))) 0
       = Some []"
    "map call_frontload (calls (snd (flushQueues env1 (Some 0) no_flush_options state2)))
       = [1, 2, 3]"
    "pushFrontload env1 server0 9 opts0 MOUNT cprops0 None
        (snd (flushQueues env1 (Some 0) no_flush_options state2))
       = Inr ((snd (flushQueues env1 (Some 0) no_flush_options state2))
                \<lparr>FRONTLOAD_QUEUES := [Some [request 9], Some [request 4]]\<rparr>)"
    by code_simp+
  note w = flush_resets_slot_before_settling
             [OF h, of env1 no_flush_options 9 cprops0 None]
  have c: "\<exists>p s'. flushQueues env1 (Some 0) no_flush_options state2 = (Inr p, s')
          \<and> lookup (FRONTLOAD_QUEUES s') 0 = Some []
          \<and> (\<exists>s''. pushFrontload env1 server0 9 opts0 MOUNT cprops0 None s' = Inr s''
                \<and> calls s'' = calls s')"
    using w by blast
  show ?thesis
    by (intro conjI h e c)
qed

lemma flush_each_run:
  assumes "\<forall>i \<in> set is. i < length (FRONTLOAD_QUEUES s) \<and> FRONTLOAD_QUEUES s ! i \<noteq> None"
    and "distinct is"
  shows "\<exists>ps s'. flush_each env is mapped s = (Inr (mapped @ ps), s')
           \<and> calls s' = calls s
                @ map fn (concat (map (\<lambda>i. slot_requests (FRONTLOAD_QUEUES s ! i)) is))
           \<and> store s' = store s \<and> renders s' = renders s"
  using assms
proof (induction "is" arbitrary: s mapped)
  case Nil
  then show ?case by simp
next
  case (Cons i "is")
  from Cons.prems obtain queue where q: "FRONTLOAD_QUEUES s ! i = Some queue"
    and less: "i < length (FRONTLOAD_QUEUES s)"
    by auto
  then have slot: "lookup (FRONTLOAD_QUEUES s) i = Some queue"
    by (simp add: lookup_def)
  from flushQueues_at_run[OF slot, of env no_flush_options] obtain p s1 where
    f1: "flushQueues_at env i no_flush_options s = (Inr p, s1)"
    and q1: "FRONTLOAD_QUEUES s1 = (FRONTLOAD_QUEUES s)[i := Some []]"
    and c1: "calls s1 = calls s @ map fn queue"
    and w1: "store s1 = store s" "renders s1 = renders s"
    unfolding eligible_no_flush_options by blast
  from Cons.prems have notin: "i \<notin> set is" and dist: "distinct is"
    by simp_all
  have same: "\<And>j. j \<in> set is \<Longrightarrow> FRONTLOAD_QUEUES s1 ! j = FRONTLOAD_QUEUES s ! j"
    using q1 notin by (metis nth_list_update_neq)
  have pre: "\<forall>j \<in> set is. j < length (FRONTLOAD_QUEUES s1) \<and> FRONTLOAD_QUEUES s1 ! j \<noteq> None"
    using Cons.prems(1) same q1 by simp
  from Cons.IH[OF pre dist, of "mapped @ [p]"] obtain ps s' where
    r: "flush_each env is (mapped @ [p]) s1 = (Inr ((mapped @ [p]) @ ps), s')"
    and c: "calls s' = calls s1
              @ map fn (concat (map (\<lambda>i. slot_requests (FRONTLOAD_QUEUES s1 ! i)) is))"
    and w: "store s' = store s1" "renders s' = renders s1"
    by blast
  have eq: "map (\<lambda>i. slot_requests (FRONTLOAD_QUEUES s1 ! i)) is
              = map (\<lambda>i. slot_requests (FRONTLOAD_QUEUES s ! i)) is"
    using same by simp
  have "flush_each env (i # is) mapped s = (Inr (mapped @ (p # ps)), s')"
    using f1 r by simp
  moreover have "calls s' = calls s
      @ map fn (concat (map (\<lambda>i. slot_requests (FRONTLOAD_QUEUES s ! i)) (i # is)))"
    using c c1 q unfolding eq by (simp add: slot_requests_def)
  ultimately show ?case
    using w w1 by auto
qed

lemma map_nth_upt: "map (\<lambda>i. f (xs ! i)) [0..<length xs] = map f xs"
  by (rule nth_equalityI) simp_all

lemma flushQueues_all_run:
  assumes "None \<notin> set (FRONTLOAD_QUEUES s)"
  shows "\<exists>p s'. flushQueues env None opts s = (Inr p, s')
           \<and> calls s' = calls s @ map fn (concat (map slot_requests (FRONTLOAD_QUEUES s)))
           \<and> FRONTLOAD_QUEUES s' = [] \<and> renders s' = renders s \<and> store s' = store s"
proof -
  have pre: "\<forall>i \<in> set [0..<length (FRONTLOAD_QUEUES s)].
               i < length (FRONTLOAD_QUEUES s) \<and> FRONTLOAD_QUEUES s ! i \<noteq> None"
    using assms by (metis atLeastLessThan_iff nth_mem set_upt)
  from flush_each_run[OF pre distinct_upt, of env "[]"] obtain ps s1 where
    r: "flush_each env [0..<length (FRONTLOAD_QUEUES s)] [] s = (Inr ps, s1)"
    and c: "calls s1 = calls s
              @ map fn (concat (map (\<lambda>i. slot_requests (FRONTLOAD_QUEUES s ! i))
                                  [0..<length (FRONTLOAD_QUEUES s)]))"
    and w: "store s1 = store s" "renders s1 = renders s"
    by auto
  from r have "flushQueues env None opts s = (Inr (promise_all ps), cleanQueues None s1)"
    by (simp add: flushQueues_def)
  with c w show ?thesis
    by (simp add: cleanQueues_frame cleanQueues_all map_nth_upt)
qed

text \<open>
  C10: the whole-registry flush calls the per-slot flush with the index alone. Whatever
  options it is given, it invokes every request of every slot, in slot order, and leaves
  the registry empty; its result does not depend on the options. A single-slot flush
  invokes only the requests its options make eligible, so with \<open>firstClientRender\<close> set
  and no \<open>noServerRender\<close> flag it invokes none.
\<close>

theorem global_flush_runs_every_request:
  assumes "None \<notin> set (FRONTLOAD_QUEUES s)"
  shows "(\<exists>p s'. flushQueues env None opts s = (Inr p, s')
            \<and> calls s' = calls s @ map fn (concat (map slot_requests (FRONTLOAD_QUEUES s)))
            \<and> FRONTLOAD_QUEUES s' = [])
       \<and> flushQueues env None opts s = flushQueues env None opts' s
       \<and> (\<forall>i queue. lookup (FRONTLOAD_QUEUES s) i = Some queue
             \<longrightarrow> calls (snd (flushQueues env (Some i) opts s))
                   = calls s @ map fn (filter (eligible opts) queue))"
proof -
  have "\<And>i queue. lookup (FRONTLOAD_QUEUES s) i = Some queue
          \<Longrightarrow> calls (snd (flushQueues env (Some i) opts s))
                = calls s @ map fn (filter (eligible opts) queue)"
    using flushQueues_at_run[of s _ _ env opts] by (fastforce simp: flushQueues_def)
  moreover have "flushQueues env None opts s = flushQueues env None opts' s"
    by (simp add: flushQueues_def)
  ultimately show ?thesis
    using flushQueues_all_run[OF assms, of env opts] by blast
qed

theorem global_flush_runs_every_request_witness:
  "None \<notin> set (FRONTLOAD_QUEUES state2)
   \<and> map call_frontload (calls (snd (flushQueues env1 None first_client_options state2)))
       = [1, 2, 3, 4]
   \<and> calls (snd (flushQueues env1 (Some 0) first_client_options state2)) = []
   \<and> flushQueues env1 None first_client_options state2
       = flushQueues env1 None no_flush_options state2"
proof -
  have h: "None \<notin> set (FRONTLOAD_QUEUES state2)"
    by code_simp
  have e: "map call_frontload (calls (snd (flushQueues env1 None first_client_options state2)))
       = [1, 2, 3, 4]"
    "calls (snd (flushQueues env1 (Some 0) first_client_options state2)) = []"
    by code_simp+
  from global_flush_runs_every_request
         [OF h, of env1 first_client_options no_flush_options]
  have "flushQueues env1 None first_client_options state2
          = flushQueues env1 None no_flush_options state2"
    by blast
  with h e show ?thesis by simp
qed

subsection \<open>Render-pass coordinator\<close>

lemma call_render_simps:
  "fst (call_render render d s) = fst (render d (FRONTLOAD_QUEUES s, store s))"
  "FRONTLOAD_QUEUES (snd (call_render render d s)) = fst (snd (render d (FRONTLOAD_QUEUES s, store s)))"
  "store (snd (call_render render d s)) = snd (snd (render d (FRONTLOAD_QUEUES s, store s)))"
  "renders (snd (call_render render d s)) = renders s @ [d]"
  "calls (snd (call_render render d s)) = calls s"
  "logs (snd (call_render render d s)) = logs s"
  by (simp_all add: call_render_def case_prod_beta)

lemma wlog_frame:
  "FRONTLOAD_QUEUES (wlog env opts nm msg s) = FRONTLOAD_QUEUES s"
  "store (wlog env opts nm msg s) = store s"
  "renders (wlog env opts nm msg s) = renders s"
  "calls (wlog env opts nm msg s) = calls s"
  by (simp_all add: wlog_def log_def)

lemma flushQueues_at_renders: "renders (snd (flushQueues_at env i fo s)) = renders s"
  using flush_loop_run[of env fo _ "[]" s]
  by (simp add: flushQueues_at_def case_prod_beta cleanQueues_frame split: option.splits)

lemma flush_each_renders: "renders (snd (flush_each env is mapped s)) = renders s"
proof (induction "is" arbitrary: mapped s)
  case Nil
  then show ?case by simp
next
  case (Cons i "is")
  obtain r s1 where f: "flushQueues_at env i no_flush_options s = (r, s1)"
    by (cases "flushQueues_at env i no_flush_options s")
  with flushQueues_at_renders[of env i no_flush_options s] have r1: "renders s1 = renders s"
    by simp
  show ?case
  proof (cases r)
    case (Inl e)
    with f r1 show ?thesis by simp
  next
    case (Inr p)
    with f r1 Cons[of "mapped @ [p]" s1] show ?thesis by simp
  qed
qed

lemma flushQueues_renders: "renders (snd (flushQueues env index fo s)) = renders s"
proof (cases index)
  case None
  obtain r s1 where f: "flush_each env [0..<length (FRONTLOAD_QUEUES s)] [] s = (r, s1)"
    by (cases "flush_each env [0..<length (FRONTLOAD_QUEUES s)] [] s")
  with flush_each_renders[of env "[0..<length (FRONTLOAD_QUEUES s)]" "[]" s]
  have "renders s1 = renders s" by simp
  with f None show ?thesis
    by (cases r) (simp_all add: flushQueues_def cleanQueues_frame)
next
  case (Some i)
  then show ?thesis
    by (simp add: flushQueues_def flushQueues_at_renders)
qed

lemma final_render_renders:
  "renders (snd (final_render env render opts n s)) = renders s @ [False]"
  by (simp add: final_render_def case_prod_beta cleanQueues_frame wlog_frame call_render_simps)

lemma incomplete_render_renders:
  "renders (snd (incomplete_render env render opts tot s)) = renders s @ [False]"
  by (simp add: incomplete_render_def case_prod_beta Let_def cleanQueues_frame log_frame
        call_render_simps split: option.splits)

lemma worker_terminates:
  assumes m: "maxNestedFrontloadComponents opts = Some m"
  shows "n \<le> m \<Longrightarrow>
     \<exists>res s'. frontloadServerRenderWorker env render opts n prev s = Some (res, s')
       \<and> (\<exists>added. renders s' = renders s @ True # added \<and> length added \<le> nat (m - n) + 1)"
proof (induction "nat (m - n)" arbitrary: n prev s rule: less_induct)
  case less
  define s1 where "s1 = snd (call_render render True (wlog env opts Info (RunningRenderPass n) s))"
  have r1: "renders s1 = renders s @ [True]"
    by (simp add: s1_def call_render_simps wlog_frame)
  show ?case
  proof (cases "lookup (FRONTLOAD_QUEUES s1) 0")
    case None
    then have "frontloadServerRenderWorker env render opts n prev s = Some (Throws TypeError, s1)"
      by (subst frontloadServerRenderWorker.simps) (simp add: s1_def Let_def)
    with r1 show ?thesis by simp
  next
    case (Some q)
    define s2 where "s2 = wlog env opts Info (TotalFrontloadsCount n (int (length q))) s1"
    have r2: "renders s2 = renders s @ [True]"
      by (simp add: s2_def wlog_frame r1)
    show ?thesis
    proof (cases "int (length q) - prev = 0")
      case True
      with Some have "frontloadServerRenderWorker env render opts n prev s
                        = Some (final_render env render opts n s2)"
        by (subst frontloadServerRenderWorker.simps) (simp add: s1_def s2_def Let_def)
      then have "frontloadServerRenderWorker env render opts n prev s
                   = Some (fst (final_render env render opts n s2),
                           snd (final_render env render opts n s2))"
        by simp
      moreover have "renders (snd (final_render env render opts n s2)) = renders s @ True # [False]"
        by (simp add: final_render_renders r2)
      ultimately show ?thesis by fastforce
    next
      case new: False
      define s3 where "s3 = wlog env opts Info (FrontloadsToRun (int (length q) - prev) n) s2"
      obtain fr s4 where fl: "flushQueues env None no_flush_options s3 = (fr, s4)"
        by (cases "flushQueues env None no_flush_options s3")
      have r4: "renders s4 = renders s @ [True]"
        using flushQueues_renders[of env None no_flush_options s3] fl
        by (simp add: s3_def wlog_frame r2)
      have unfold: "frontloadServerRenderWorker env render opts n prev s =
        (case flushQueues env None no_flush_options s3 of
           (Inl e, s4) \<Rightarrow> Some (Throws e, s4)
         | (Inr None, s4) \<Rightarrow> Some (Pending, s4)
         | (Inr (Some (t, Rejected r)), s4) \<Rightarrow> Some (Rejects (Reason r), s4)
         | (Inr (Some (t, Fulfilled v)), s4) \<Rightarrow>
             (let s5 = wlog env opts Info (RanFrontloads n (int (length q) - prev))
                         (s4\<lparr>store := settled_store env (drop (length (calls s3)) (calls s4))
                                         (store s4)\<rparr>)
              in if Some n = maxNestedFrontloadComponents opts
                 then Some (incomplete_render env render opts (int (length q)) s5)
                 else Option.bind
                        (frontloadServerRenderWorker env render opts (n + 1)
                           (prev + (int (length q) - prev)) s5)
                        (\<lambda>(r, s'). Some (adopt r, s'))))"
        using Some new unfolding s1_def s2_def s3_def
        by (subst frontloadServerRenderWorker.simps) (simp add: Let_def)
      show ?thesis
      proof (cases fr)
        case (Inl e)
        with unfold fl r4 show ?thesis by simp
      next
        case (Inr p)
        show ?thesis
        proof (cases p)
          case None
          with unfold fl r4 Inr show ?thesis by simp
        next
          case (Some tr)
          obtain t outcome where tr: "tr = (t, outcome)" by (cases tr)
          show ?thesis
          proof (cases outcome)
            case (Rejected x)
            with unfold fl r4 Inr Some tr show ?thesis by simp
          next
            case (Fulfilled v)
            define s5 where "s5 = wlog env opts Info (RanFrontloads n (int (length q) - prev))
                         (s4\<lparr>store := settled_store env (drop (length (calls s3)) (calls s4))
                                         (store s4)\<rparr>)"
            have r5: "renders s5 = renders s @ [True]"
              by (simp add: s5_def wlog_frame r4)
            show ?thesis
            proof (cases "n = m")
              case True
              then have "frontloadServerRenderWorker env render opts n prev s
                   = Some (fst (incomplete_render env render opts (int (length q)) s5),
                           snd (incomplete_render env render opts (int (length q)) s5))"
                using unfold fl Inr Some tr Fulfilled m by (simp add: s5_def Let_def)
              moreover have "renders (snd (incomplete_render env render opts (int (length q)) s5))
                               = renders s @ True # [False]"
                by (simp add: incomplete_render_renders r5)
              ultimately show ?thesis by fastforce
            next
              case False
              with less.prems have lt: "n + 1 \<le> m" "nat (m - (n + 1)) < nat (m - n)"
                by simp_all
              from less.hyps[OF lt(2) lt(1), of "prev + (int (length q) - prev)" s5]
              obtain res s' added where
                rec: "frontloadServerRenderWorker env render opts (n + 1)
                        (prev + (int (length q) - prev)) s5 = Some (res, s')"
                and ra: "renders s' = renders s5 @ True # added"
                and la: "length added \<le> nat (m - (n + 1)) + 1"
                by blast
              have "frontloadServerRenderWorker env render opts n prev s = Some (adopt res, s')"
                using unfold fl Inr Some tr Fulfilled m False rec by (simp add: s5_def Let_def)
              moreover have "renders s' = renders s @ True # (True # added)"
                using ra r5 by simp
              moreover have "length (True # added) \<le> nat (m - n) + 1"
                using la lt by simp
              ultimately show ?thesis by blast
            qed
          qed
        qed
      qed
    qed
  qed
qed

text \<open>
  C5: with \<open>maxNestedFrontloadComponents = m\<close> and \<open>m \<ge> 1\<close>, the recursion of passes
  ends (the run has an outcome; the outcome may still be a promise that never settles, when
  a fetch never settles) and the renderer has been invoked at most \<open>m + 1\<close> times.
\<close>

theorem coordinator_terminates_within_budget:
  assumes "maxNestedFrontloadComponents opts = Some m" and "1 \<le> m"
  shows "\<exists>res s' added. frontloadServerRender env render (Some opts) s = Some (res, s')
           \<and> renders s' = renders s @ added \<and> length added \<le> nat m + 1"
proof -
  define opts3 where "opts3 = (if \<not> production env \<and> opt_withLogging opts = None
                      then opts\<lparr>opt_withLogging := Some True\<rparr> else opts)"
  have m3: "maxNestedFrontloadComponents opts3 = Some m"
    using assms(1) by (simp add: opts3_def)
  have entry: "frontloadServerRender env render (Some opts) s
                 = frontloadServerRenderWorker env render opts3 1 0 s"
    using assms by (simp add: frontloadServerRender_def opts3_def Let_def)
  from worker_terminates[OF m3, of 1 env render 0 s] assms(2) obtain res s' added where
    "frontloadServerRenderWorker env render opts3 1 0 s = Some (res, s')"
    "renders s' = renders s @ True # added" "length added \<le> nat (m - 1) + 1"
    by auto
  with entry assms(2) show ?thesis
    by (intro exI[of _ res] exI[of _ s'] exI[of _ "True # added"]) auto
qed

theorem coordinator_terminates_within_budget_witness:
  "maxNestedFrontloadComponents (logging 2) = Some 2 \<and> (1::int) \<le> 2
   \<and> run_summary (frontloadServerRender env0 render_nested (Some (logging 2)) state0)
       = Some (Resolves 4, [True, True, False], [])
   \<and> (\<exists>res s' added. frontloadServerRender env0 render_nested (Some (logging 2)) state0
                         = Some (res, s')
          \<and> renders s' = renders state0 @ added \<and> length added \<le> nat 2 + 1)"
proof -
  have h: "maxNestedFrontloadComponents (logging 2) = Some 2" "(1::int) \<le> 2"
    by code_simp+
  have e: "run_summary (frontloadServerRender env0 render_nested (Some (logging 2)) state0)
       = Some (Resolves 4, [True, True, False], [])"
    by code_simp
  note w = coordinator_terminates_within_budget[OF h, of env0 render_nested state0]
  show ?thesis
    by (intro conjI h e w)
qed

subsection \<open>Settle-join\<close>


lemma adapter_plain:
  assumes "plain p"
  shows "(p = None \<and> promise_catch (\<lambda>error. error) p = None)
       \<or> (\<exists>tp rp v. p = Some (tp, rp)
             \<and> promise_catch (\<lambda>error. error) p = Some (tp, Fulfilled v))"
proof (cases p)
  case None
  then show ?thesis by (simp add: promise_catch_def)
next
  case (Some tr)
  obtain tp rp where tr: "tr = (tp, rp)" by (cases tr)
  show ?thesis
  proof (cases rp)
    case (Fulfilled v)
    with Some tr show ?thesis by (simp add: promise_catch_def)
  next
    case (Rejected e)
    with assms Some tr show ?thesis
      by (cases e) (simp_all add: promise_catch_def plain_def)
  qed
qed

lemma first_rejection_plain:
  "\<forall>q \<in> set ps. plain q \<Longrightarrow> first_rejection (map (promise_catch (\<lambda>error. error)) ps) = None"
proof (induction ps)
  case Nil
  then show ?case by simp
next
  case (Cons p ps)
  from Cons.prems have "plain p" by simp
  from adapter_plain[OF this] Cons show ?case by auto
qed

lemma all_fulfilled_plain_Some:
  "\<forall>q \<in> set ps. plain q
     \<Longrightarrow> all_fulfilled (map (promise_catch (\<lambda>error. error)) ps) = Some (t, vs)
     \<Longrightarrow> length vs = length ps \<and> (\<forall>q \<in> set ps. \<exists>tq rq. q = Some (tq, rq) \<and> tq \<le> t)"
proof (induction ps arbitrary: t vs)
  case Nil
  then show ?case by simp
next
  case (Cons p ps)
  from Cons.prems(1) have "plain p" by simp
  from adapter_plain[OF this] Cons.prems(2) obtain tp rp v where p: "p = Some (tp, rp)"
    and pc: "promise_catch (\<lambda>error. error) p = Some (tp, Fulfilled v)"
    by auto
  from Cons.prems(2) pc obtain t' vs' where
    rest: "all_fulfilled (map (promise_catch (\<lambda>error. error)) ps) = Some (t', vs')"
    and t: "t = max tp t'" and vs: "vs = v # vs'"
    by (auto split: option.splits)
  from Cons.prems(1) have "\<forall>q \<in> set ps. plain q" by simp
  from Cons.IH[OF this rest] have "length vs' = length ps"
    and "\<forall>q \<in> set ps. \<exists>tq rq. q = Some (tq, rq) \<and> tq \<le> t'"
    by blast+
  with p t vs show ?case
    by (fastforce simp: max_def)
qed

lemma all_fulfilled_plain_None:
  "\<forall>q \<in> set ps. plain q
     \<Longrightarrow> all_fulfilled (map (promise_catch (\<lambda>error. error)) ps) = None \<Longrightarrow> None \<in> set ps"
proof (induction ps)
  case Nil
  then show ?case by simp
next
  case (Cons p ps)
  from Cons.prems(1) have "plain p" by simp
  from adapter_plain[OF this] show ?case
  proof
    assume "p = None \<and> promise_catch (\<lambda>error. error) p = None"
    then show ?thesis by simp
  next
    assume "\<exists>tp rp v. p = Some (tp, rp)
              \<and> promise_catch (\<lambda>error. error) p = Some (tp, Fulfilled v)"
    then obtain tp v where pc: "promise_catch (\<lambda>error. error) p = Some (tp, Fulfilled v)"
      by blast
    from Cons.prems(2) pc have "all_fulfilled (map (promise_catch (\<lambda>error. error)) ps) = None"
      by (auto split: option.splits)
    with Cons.IH Cons.prems(1) show ?thesis by simp
  qed
qed

text \<open>
  Where no invoked request rejects with a thenable, the settle-join does what the comment
  above \<open>waitForAllToComplete\<close> says: it is never rejected, it resolves with one value per
  promise and no earlier than any of them settles, and it resolves when all of them settle.
\<close>

lemma waitForAllToComplete_plain:
  assumes "\<forall>q \<in> set ps. plain q"
  shows "(\<forall>t r. waitForAllToComplete ps \<noteq> Some (t, Rejected r))
       \<and> (\<forall>t r. waitForAllToComplete ps = Some (t, r) \<longrightarrow>
             (\<exists>vs. r = Fulfilled (Array vs) \<and> length vs = length ps)
             \<and> (\<forall>q \<in> set ps. \<exists>tq rq. q = Some (tq, rq) \<and> tq \<le> t))
       \<and> ((\<forall>q \<in> set ps. q \<noteq> None) \<longrightarrow> waitForAllToComplete ps \<noteq> None)"
  using all_fulfilled_plain_Some[OF assms] all_fulfilled_plain_None[OF assms]
        first_rejection_plain[OF assms]
  by (auto simp: waitForAllToComplete_def map_util_map promise_all_def split: option.splits)

text \<open>
  C1 says that the promise of a flush never rejects and resolves only after the promise of
  every invoked request has settled, and that no fetch rejection reaches the caller of
  the coordinator. The code misses this where a fetch rejects with a thenable as its
  reason: \<open>catch(error => error)\<close> resolves the derived promise with that reason, which
  adopts it. In \<open>env2\<close> fetch 2 rejects at time 20 with a promise that rejects with 401 at
  time 25. The flush of the requests 1, 2, 3 rejects with 401 at time 25, before fetch 3
  has settled at time 30; and a run of the coordinator whose second pass invokes fetch 2
  rejects with 401 after its two dry runs.
\<close>

theorem flush_rejects_on_thenable_reason:
  "fst (flushQueues env2 (Some 0) no_flush_options state2) = Inr (Some (25, Rejected (Atom 401)))
   \<and> fetch env2 2 (fn (request 3)) = Some (30, Fulfilled (Atom 3))
   \<and> run_summary (frontloadServerRender env2 render_nested (Some (logging 3)) state0)
       = Some (Rejects (Reason (Atom 401)), [True, True], [])"
  by code_simp

subsection \<open>Fixpoint\<close>

lemma wlog_Info_warnings: "warnings (logs (wlog env opts Info msg s)) = warnings (logs s)"
  by (simp add: wlog_def log_def warnings_def)

lemma call_render_run:
  assumes "render d (FRONTLOAD_QUEUES s, store s) = (out, qs, w)"
  shows "call_render render d s
           = (out, s\<lparr>FRONTLOAD_QUEUES := qs, store := w, renders := renders s @ [d]\<rparr>)"
  using assms by (simp add: call_render_def)

lemma final_render_run:
  assumes "render False ([], store s) = (out, qs2, w2)"
  shows "\<exists>s'. final_render env render opts n s = (Resolves out, s')
           \<and> FRONTLOAD_QUEUES s' = [] \<and> store s' = w2 \<and> calls s' = calls s
           \<and> renders s' = renders s @ [False]
           \<and> warnings (logs s') = warnings (logs s)"
proof -
  define s0 where "s0 = cleanQueues None
                (wlog env opts Info (NoFrontloadsRemain n (maxNestedFrontloadComponents opts)) s)"
  have s0: "FRONTLOAD_QUEUES s0 = []" "store s0 = store s" "calls s0 = calls s"
    "renders s0 = renders s" "warnings (logs s0) = warnings (logs s)"
    by (simp_all add: s0_def cleanQueues_all cleanQueues_frame wlog_frame wlog_Info_warnings)
  from assms s0 have "render False (FRONTLOAD_QUEUES s0, store s0) = (out, qs2, w2)"
    by simp
  with call_render_run[of render False s0 out qs2 w2]
  have "final_render env render opts n s =
          (Resolves out,
           cleanQueues None
             (wlog env opts Info FinalRenderSucceeded
                (wlog env opts Info QueuesFilledNotFlushed
                   (s0\<lparr>FRONTLOAD_QUEUES := qs2, store := w2, renders := renders s0 @ [False]\<rparr>))))"
    by (simp add: final_render_def s0_def)
  then show ?thesis
    using s0
    by (simp add: cleanQueues_all cleanQueues_frame wlog_frame wlog_Info_warnings)
qed

text \<open>
  C6: in a pass whose dry run finds no new request (the size of queue 0 equals the count of
  the previous pass), the worker cleans the registry, invokes \<open>render(false)\<close> once on the
  empty registry, cleans again and resolves with that render's output: the registry is
  empty at the end, and no fetch function has been invoked, so the requests the final
  render enqueued are never run.
\<close>

theorem fixpoint_final_render:
  assumes r1: "render True (FRONTLOAD_QUEUES s, store s) = (out1, qs1, w1)"
    and slot: "lookup qs1 0 = Some frontloadsQueue"
    and fixpoint: "int (length frontloadsQueue) - frontloadsInLastRender = 0"
    and r2: "render False ([], w1) = (out, qs2, w2)"
  shows "\<exists>s'. frontloadServerRenderWorker env render opts renderNumber frontloadsInLastRender s
                = Some (Resolves out, s')
           \<and> FRONTLOAD_QUEUES s' = [] \<and> calls s' = calls s
           \<and> renders s' = renders s @ [True, False] \<and> store s' = w2"
proof -
  define s1 where
    "s1 = snd (call_render render True (wlog env opts Info (RunningRenderPass renderNumber) s))"
  have s1: "FRONTLOAD_QUEUES s1 = qs1" "store s1 = w1" "calls s1 = calls s"
    "renders s1 = renders s @ [True]"
    using r1 by (simp_all add: s1_def call_render_simps wlog_frame)
  define s2 where "s2 = wlog env opts Info
                     (TotalFrontloadsCount renderNumber (int (length frontloadsQueue))) s1"
  have s2: "store s2 = w1" "calls s2 = calls s" "renders s2 = renders s @ [True]"
    by (simp_all add: s2_def wlog_frame s1)
  from r2 s2 have "render False ([], store s2) = (out, qs2, w2)" by simp
  with final_render_run[of render s2 out qs2 w2 env opts renderNumber] obtain s' where
    f: "final_render env render opts renderNumber s2 = (Resolves out, s')"
    and s': "FRONTLOAD_QUEUES s' = []" "store s' = w2" "calls s' = calls s2"
      "renders s' = renders s2 @ [False]"
    by blast
  have "frontloadServerRenderWorker env render opts renderNumber frontloadsInLastRender s
          = Some (final_render env render opts renderNumber s2)"
    using slot fixpoint s1(1) unfolding s1_def s2_def
    by (subst frontloadServerRenderWorker.simps) (simp add: Let_def)
  with f s' s2 show ?thesis by simp
qed

theorem fixpoint_final_render_witness:
  "render_flat True (FRONTLOAD_QUEUES state0, store state0) = (0, [Some [request 1]], 0)
   \<and> lookup [Some [request 1]] 0 = Some [request 1]
   \<and> int (length [request 1]) - 1 = 0
   \<and> render_flat False ([], 0) = (0, [Some [request 1]], 0)
   \<and> run_summary (frontloadServerRenderWorker env0 render_flat (logging 3) 2 1 state0)
       = Some (Resolves 0, [True, False], [])
   \<and> (\<exists>s'. frontloadServerRenderWorker env0 render_flat (logging 3) 2 1 state0
               = Some (Resolves 0, s')
          \<and> FRONTLOAD_QUEUES s' = [] \<and> calls s' = calls state0)"
proof -
  have h: "render_flat True (FRONTLOAD_QUEUES state0, store state0) = (0, [Some [request 1]], 0)"
    "lookup [Some [request 1]] 0 = Some [request 1]"
    "int (length [request 1]) - 1 = 0"
    "render_flat False ([], 0) = (0, [Some [request 1]], 0)"
    by code_simp+
  have e: "run_summary (frontloadServerRenderWorker env0 render_flat (logging 3) 2 1 state0)
       = Some (Resolves 0, [True, False], [])"
    by code_simp
  note w = fixpoint_final_render[OF h, of env0 "logging 3" 2]
  have c: "\<exists>s'. frontloadServerRenderWorker env0 render_flat (logging 3) 2 1 state0
               = Some (Resolves 0, s')
          \<and> FRONTLOAD_QUEUES s' = [] \<and> calls s' = calls state0"
    using w by blast
  show ?thesis
    by (intro conjI h e c)
qed

subsection \<open>Exhausted budget\<close>

















subsection \<open>Entry point\<close>

lemma worker_renders_first:
  assumes run: "frontloadServerRenderWorker env' render' opts' n' prev' s' = Some y'"
  shows "\<exists>added. renders (snd y') = renders s' @ True # added"
proof (rule frontloadServerRenderWorker.raw_induct
         [where P = "\<lambda>_ _ _ _ _ s y. \<exists>added. renders (snd y) = renders s @ True # added",
          OF _ run], goal_cases)
  case (1 worker env render opts n prev s y)
  note IH = "1"(1)
  define s1 where "s1 = snd (call_render render True (wlog env opts Info (RunningRenderPass n) s))"
  have r1: "renders s1 = renders s @ [True]"
    by (simp add: s1_def call_render_simps wlog_frame)
  note body = "1"(2)[unfolded Let_def, folded s1_def]
  show ?case
  proof (cases "lookup (FRONTLOAD_QUEUES s1) 0")
    case None
    with body r1 show ?thesis by auto
  next
    case (Some q)
    define s2 where "s2 = wlog env opts Info (TotalFrontloadsCount n (int (length q))) s1"
    have r2: "renders s2 = renders s @ [True]"
      by (simp add: s2_def wlog_frame r1)
    show ?thesis
    proof (cases "int (length q) - prev = 0")
      case True
      with body Some have "y = final_render env render opts n s2"
        by (auto simp: s2_def)
      with final_render_renders[of env render opts n s2] r2 show ?thesis by simp
    next
      case new: False
      define s3 where "s3 = wlog env opts Info (FrontloadsToRun (int (length q) - prev) n) s2"
      obtain fr s4 where fl: "flushQueues env None no_flush_options s3 = (fr, s4)"
        by (cases "flushQueues env None no_flush_options s3")
      have r4: "renders s4 = renders s @ [True]"
        using flushQueues_renders[of env None no_flush_options s3] fl
        by (simp add: s3_def wlog_frame r2)
      note fl' = fl[unfolded s3_def s2_def]
      show ?thesis
      proof (cases fr)
        case (Inl e)
        with body Some new fl' r4 show ?thesis by auto
      next
        case (Inr p)
        show ?thesis
        proof (cases p)
          case None
          with body \<open>lookup (FRONTLOAD_QUEUES s1) 0 = Some q\<close> new fl' Inr r4 show ?thesis by auto
        next
          case (Some tr)
          obtain t outcome where tr: "tr = (t, outcome)" by (cases tr)
          show ?thesis
          proof (cases outcome)
            case (Rejected r)
            with body \<open>lookup (FRONTLOAD_QUEUES s1) 0 = Some q\<close> new fl' Inr Some tr r4
            show ?thesis by auto
          next
            case (Fulfilled v)
            show ?thesis
            proof (cases "Some n = maxNestedFrontloadComponents opts")
              case True
              with body \<open>lookup (FRONTLOAD_QUEUES s1) 0 = Some q\<close> new fl' Inr Some tr Fulfilled
              obtain sx where "incomplete_render env render opts (int (length q)) sx = y"
                and "renders sx = renders s4"
                by (auto simp: wlog_frame)
              with incomplete_render_renders[of env render opts "int (length q)" sx] r4
              show ?thesis by auto
            next
              case False
              with body \<open>lookup (FRONTLOAD_QUEUES s1) 0 = Some q\<close> new fl' Inr Some tr Fulfilled
              obtain z a b c where
                rec: "worker env render opts a b c = Some z"
                and res: "snd y = snd z" and c: "renders c = renders s4"
                by (auto simp: bind_eq_Some_conv wlog_frame)
              from IH[OF rec] obtain added where "renders (snd z) = renders c @ True # added"
                by blast
              with res c r4 show ?thesis by simp
            qed
          qed
        qed
      qed
    qed
  qed
qed

text \<open>
  C8, as stated, fails: the entry point validates nothing. With the maximum 0 the run
  renders twice and resolves; with the maximum -1 it renders three times and resolves.
\<close>

theorem max_passes_below_one_renders:
  "run_summary (frontloadServerRender env0 render_flat (Some (logging 0)) state0)
     = Some (Resolves 1, [True, False], [])
   \<and> run_summary (frontloadServerRender env0 render_flat (Some (logging (- 1))) state0)
       = Some (Resolves 1, [True, True, False], [])"
  by code_simp

text \<open>
  C8, amended: the entry point raises no configuration error. It hands the worker, at
  pass 1, the budget it was given, or 1 when it was called without options, without a
  budget or with the budget 0; any other budget, also a negative one, reaches the worker
  as it is (and the logging flag as given, or true outside production when none is given).
  With the budget 1 the call has an outcome and has invoked the renderer once or twice.
  For every configuration, a call that has an outcome has invoked the renderer, first as
  a dry run.
\<close>

theorem entry_point_defaults_max_passes:
  "frontloadServerRender env render given s
     = frontloadServerRenderWorker env render
         \<lparr>opt_withLogging = effective_logging env given,
            maxNestedFrontloadComponents = Some (effective_budget given)\<rparr> 1 0 s
   \<and> (effective_budget given = 1
        \<longrightarrow> (\<exists>res s' added. frontloadServerRender env render given s = Some (res, s')
               \<and> renders s' = renders s @ True # added \<and> length added \<le> 1))
   \<and> (\<forall>res s'. frontloadServerRender env render given s = Some (res, s')
         \<longrightarrow> (\<exists>added. renders s' = renders s @ True # added))"
proof -
  define handed where "handed = \<lparr>opt_withLogging = effective_logging env given,
                           maxNestedFrontloadComponents = Some (effective_budget given)\<rparr>"
  have entry: "frontloadServerRender env render given s
                 = frontloadServerRenderWorker env render handed 1 0 s"
  proof (cases given)
    case None
    then show ?thesis
      by (simp add: frontloadServerRender_def Let_def handed_def effective_budget_def
            effective_logging_def)
  next
    case (Some opts)
    obtain wl mx where opts: "opts = \<lparr>opt_withLogging = wl, maxNestedFrontloadComponents = mx\<rparr>"
      by (cases opts)
    show ?thesis
      by (cases wl; cases mx)
         (simp_all add: Some opts frontloadServerRender_def Let_def handed_def
            effective_budget_def effective_logging_def)
  qed
  have budget: "maxNestedFrontloadComponents handed = Some (effective_budget given)"
    by (simp add: handed_def)
  have one: "effective_budget given = 1
        \<longrightarrow> (\<exists>res s' added. frontloadServerRender env render given s = Some (res, s')
               \<and> renders s' = renders s @ True # added \<and> length added \<le> 1)"
  proof
    assume "effective_budget given = 1"
    with budget have "maxNestedFrontloadComponents handed = Some 1" by simp
    from worker_terminates[OF this, of 1 env render 0 s] entry
    show "\<exists>res s' added. frontloadServerRender env render given s = Some (res, s')
               \<and> renders s' = renders s @ True # added \<and> length added \<le> 1"
      by simp
  qed
  have first: "\<forall>res s'. frontloadServerRender env render given s = Some (res, s')
         \<longrightarrow> (\<exists>added. renders s' = renders s @ True # added)"
  proof (intro allI impI)
    fix res s'
    assume "frontloadServerRender env render given s = Some (res, s')"
    with entry have "frontloadServerRenderWorker env render handed 1 0 s = Some (res, s')"
      by simp
    from worker_renders_first[OF this] show "\<exists>added. renders s' = renders s @ True # added"
      by simp
  qed
  from entry one first show ?thesis
    unfolding handed_def by blast
qed

theorem entry_point_defaults_max_passes_witness:
  "effective_budget (Some (logging 0)) = 1
   \<and> effective_budget None = 1
   \<and> effective_budget (Some (logging (- 1))) = - 1
   \<and> effective_logging env0 (Some (logging (- 1))) = Some True
   \<and> run_summary (frontloadServerRenderWorker env0 render_flat (logging (- 1)) 1 0 state0)
       = Some (Resolves 1, [True, True, False], [])
   \<and> run_summary (frontloadServerRender env0 render_flat (Some (logging (- 1))) state0)
       = Some (Resolves 1, [True, True, False], [])
   \<and> run_summary (frontloadServerRender env0 render_flat None state0)
       = Some (Resolves 1, [True, False], [])
   \<and> (\<exists>res s' added. frontloadServerRender env0 render_flat (Some (logging 0)) state0
                         = Some (res, s')
          \<and> renders s' = renders state0 @ True # added \<and> length added \<le> 1)
   \<and> (\<exists>res s' added. frontloadServerRender env0 render_flat None state0 = Some (res, s')
          \<and> renders s' = renders state0 @ True # added \<and> length added \<le> 1)"
proof -
  have h: "effective_budget (Some (logging 0)) = 1" "effective_budget None = 1"
    "effective_budget (Some (logging (- 1))) = - 1"
    "effective_logging env0 (Some (logging (- 1))) = Some True"
    by code_simp+
  have e: "run_summary (frontloadServerRenderWorker env0 render_flat (logging (- 1)) 1 0 state0)
       = Some (Resolves 1, [True, True, False], [])"
    "run_summary (frontloadServerRender env0 render_flat None state0)
       = Some (Resolves 1, [True, False], [])"
    by code_simp+
  note w0 = entry_point_defaults_max_passes[of env0 render_flat "Some (logging 0)" state0]
  note wn = entry_point_defaults_max_passes[of env0 render_flat None state0]
  note wm = entry_point_defaults_max_passes[of env0 render_flat "Some (logging (- 1))" state0]
  have handed: "\<lparr>opt_withLogging = Some True, maxNestedFrontloadComponents = Some (- 1)\<rparr>
                  = logging (- 1)"
    by (simp add: logging_def)
  have c0: "run_summary (frontloadServerRender env0 render_flat (Some (logging (- 1))) state0)
       = Some (Resolves 1, [True, True, False], [])"
    using wm e(1) unfolding h handed by simp
  have c1: "\<exists>res s' added. frontloadServerRender env0 render_flat (Some (logging 0)) state0
                         = Some (res, s')
          \<and> renders s' = renders state0 @ True # added \<and> length added \<le> 1"
    using w0 h(1) by blast
  have c2: "\<exists>res s' added. frontloadServerRender env0 render_flat None state0 = Some (res, s')
          \<and> renders s' = renders state0 @ True # added \<and> length added \<le> 1"
    using wn h(2) by blast
  show ?thesis
    by (intro conjI h e c0 c1 c2)
qed

end
